theory Spec2Isabelle
  imports Complex_Main "HOL-Library.Product_Lexorder"
begin

section \<open>Python text: code points, whitespace, decimal digits\<close>

text \<open>
  A Python \<^verbatim>\<open>str\<close> is a sequence of Unicode code points; \<^verbatim>\<open>len\<close> counts code points.
  The model takes a string as the list of its code points, so the full-width and
  Devanagari numerals and the CJK separators of the patterns are single elements, as they
  are in Python. ASCII literals are written with \<open>ustr\<close>.
\<close>

type_synonym ustring = "int list"

definition ustr :: "string \<Rightarrow> ustring" where
  "ustr s = map of_char s"

text \<open>
  \<^verbatim>\<open>str.isspace\<close>, which is also what \<^verbatim>\<open>str.strip()\<close>, \<^verbatim>\<open>str.split()\<close> and the pattern
  \<^verbatim>\<open>\s\<close> use on \<^verbatim>\<open>str\<close>: the 29 code points below.
\<close>

definition is_space :: "int \<Rightarrow> bool" where
  "is_space c \<longleftrightarrow>
     (0x09 \<le> c \<and> c \<le> 0x0D) \<or> (0x1C \<le> c \<and> c \<le> 0x20) \<or> c = 0x85 \<or> c = 0xA0 \<or>
     c = 0x1680 \<or> (0x2000 \<le> c \<and> c \<le> 0x200A) \<or> c = 0x2028 \<or> c = 0x2029 \<or>
     c = 0x202F \<or> c = 0x205F \<or> c = 0x3000"

text \<open>
  The pattern \<^verbatim>\<open>\d\<close> on \<^verbatim>\<open>str\<close> is the Unicode category Nd. In Unicode 14.0 (the
  tables of CPython 3.11) it is 61 runs of ten digits, each starting at one of
  \<open>nd_zeros\<close>, and the fifty mathematical digits from U+1D7CE.
\<close>

definition nd_zeros :: "int list" where
  "nd_zeros =
    [0x30, 0x660, 0x6F0, 0x7C0, 0x966, 0x9E6, 0xA66, 0xAE6, 0xB66, 0xBE6, 0xC66, 0xCE6,
     0xD66, 0xDE6, 0xE50, 0xED0, 0xF20, 0x1040, 0x1090, 0x17E0, 0x1810, 0x1946, 0x19D0,
     0x1A80, 0x1A90, 0x1B50, 0x1BB0, 0x1C40, 0x1C50, 0xA620, 0xA8D0, 0xA900, 0xA9D0,
     0xA9F0, 0xAA50, 0xABF0, 0xFF10, 0x104A0, 0x10D30, 0x11066, 0x110F0, 0x11136,
     0x111D0, 0x112F0, 0x11450, 0x114D0, 0x11650, 0x116C0, 0x11730, 0x118E0, 0x11950,
     0x11C50, 0x11D50, 0x11DA0, 0x16A60, 0x16AC0, 0x16B50, 0x1E140, 0x1E2F0, 0x1E950,
     0x1FBF0]"

definition is_decimal :: "int \<Rightarrow> bool" where
  "is_decimal c \<longleftrightarrow>
     list_ex (\<lambda>z. z \<le> c \<and> c < z + 10) nd_zeros \<or> (0x1D7CE \<le> c \<and> c \<le> 0x1D7FF)"

text \<open>\<^verbatim>\<open>s.strip()\<close>: whitespace removed at both ends.\<close>

definition strip :: "ustring \<Rightarrow> ustring" where
  "strip s = rev (dropWhile is_space (rev (dropWhile is_space s)))"

text \<open>
  \<^verbatim>\<open>re.sub(r'\s+', ' ', s)\<close>: every maximal run of whitespace becomes one U+0020.
\<close>

function sub_ws :: "ustring \<Rightarrow> ustring" where
  "sub_ws [] = []"
| "sub_ws (c # cs) =
     (if is_space c then 0x20 # sub_ws (dropWhile is_space cs) else c # sub_ws cs)"
  by pat_completeness auto
termination
  by (relation "measure length") (auto simp: le_imp_less_Suc length_dropWhile_le)

text \<open>\<^verbatim>\<open>s.split()\<close>: the maximal runs of non-whitespace, in order.\<close>

function split_ws :: "ustring \<Rightarrow> ustring list" where
  "split_ws s =
     (case dropWhile is_space s of
        [] \<Rightarrow> []
      | c # cs \<Rightarrow>
          (c # takeWhile (\<lambda>d. \<not> is_space d) cs) # split_ws (dropWhile (\<lambda>d. \<not> is_space d) cs))"
  by pat_completeness auto
termination
proof (relation "measure length")
  fix s :: ustring and c cs
  assume eq: "dropWhile is_space s = c # cs"
  have "length (dropWhile (\<lambda>d. \<not> is_space d) cs) \<le> length cs"
    by (rule length_dropWhile_le)
  also have "length cs < length (dropWhile is_space s)"
    by (simp add: eq)
  also have "length (dropWhile is_space s) \<le> length s"
    by (rule length_dropWhile_le)
  finally show "(dropWhile (\<lambda>d. \<not> is_space d) cs, s) \<in> measure length"
    by simp
qed simp

text \<open>\<^verbatim>\<open>sub in s\<close> on strings: \<open>sub\<close> occurs in \<open>s\<close> as a contiguous run.\<close>

definition is_prefix :: "ustring \<Rightarrow> ustring \<Rightarrow> bool" where
  "is_prefix p s \<longleftrightarrow> take (length p) s = p"

fun contains :: "ustring \<Rightarrow> ustring \<Rightarrow> bool" where
  "contains sub [] = (sub = [])"
| "contains sub (c # cs) = (is_prefix sub (c # cs) \<or> contains sub cs)"

text \<open>
  \<^verbatim>\<open>str.lower()\<close> is the Unicode lowercasing of the Python runtime, a table of some
  1400 entries that is no part of this repository. The functions that call it take it as
  the parameter \<open>lw\<close>, and what is proved of them holds for every \<open>lw\<close>. The concrete
  scenarios use \<open>lower_ascii\<close>, which is what \<^verbatim>\<open>str.lower()\<close> does on the ASCII texts
  they are about.
\<close>

definition lower_ascii :: "ustring \<Rightarrow> ustring" where
  "lower_ascii s = map (\<lambda>c. if 0x41 \<le> c \<and> c \<le> 0x5A then c + 0x20 else c) s"

section \<open>Regular expressions as Python's \<^verbatim>\<open>re\<close> matches them\<close>

text \<open>
  The patterns of the sources use character classes, sequence, greedy repetition and
  nothing else (no alternation of unequal length, no back-reference, no look-around).
  \<open>rests r s\<close> lists, in the order in which a backtracking matcher tries them, what
  remains of \<open>s\<close> after each way of matching \<open>r\<close> at its start: a greedy repetition
  tries one more round before it stops, as \<^verbatim>\<open>re\<close> does. So \<^verbatim>\<open>re.match(r, s)\<close> finds a
  match exactly when the list is not empty, and its first element is what follows the
  match that \<^verbatim>\<open>re\<close> reports. Every pattern in the sources starts with \<^verbatim>\<open>^\<close>, which
  \<^verbatim>\<open>re.match\<close> implies.
\<close>

datatype rx = RCls "int \<Rightarrow> bool" | RSeq rx rx | RAlt rx rx | RStar rx | REps

function rests :: "rx \<Rightarrow> ustring \<Rightarrow> ustring list" where
  "rests (RCls P) s = (case s of [] \<Rightarrow> [] | c # cs \<Rightarrow> if P c then [cs] else [])"
| "rests REps s = [s]"
| "rests (RSeq r1 r2) s = concat (map (rests r2) (rests r1 s))"
| "rests (RAlt r1 r2) s = rests r1 s @ rests r2 s"
| "rests (RStar r) s =
     concat (map (\<lambda>q. if length q < length s then rests (RStar r) q else []) (rests r s)) @ [s]"
  by pat_completeness auto
termination
  by (relation "measures [\<lambda>(r, s). size r, \<lambda>(r, s). length s]") auto

definition re_match :: "rx \<Rightarrow> ustring \<Rightarrow> bool" where
  "re_match r s \<longleftrightarrow> rests r s \<noteq> []"

text \<open>
  A literal character, \<^verbatim>\<open>r+\<close>, \<^verbatim>\<open>r?\<close>, a literal string, \<^verbatim>\<open>\s\<close>, \<^verbatim>\<open>\d\<close>,
  \<^verbatim>\<open>[A-Z]\<close>, \<^verbatim>\<open>[A-Z]{3,}\<close> and \<^verbatim>\<open>.\<close> (any code point but the line feed).
\<close>

definition rchr :: "int \<Rightarrow> rx" where
  "rchr c = RCls (\<lambda>d. d = c)"

definition rplus :: "rx \<Rightarrow> rx" where
  "rplus r = RSeq r (RStar r)"

definition ropt :: "rx \<Rightarrow> rx" where
  "ropt r = RAlt r REps"

definition rlit :: "ustring \<Rightarrow> rx" where
  "rlit s = foldr (\<lambda>c r. RSeq (rchr c) r) s REps"

definition rspace :: rx where
  "rspace = RCls is_space"

definition rdigit :: rx where
  "rdigit = RCls is_decimal"

definition rupper :: rx where
  "rupper = RCls (\<lambda>c. 0x41 \<le> c \<and> c \<le> 0x5A)"

definition rupper3 :: rx where
  "rupper3 = RSeq rupper (RSeq rupper (RSeq rupper (RStar rupper)))"

definition rany :: rx where
  "rany = RCls (\<lambda>c. c \<noteq> 0x0A)"

text \<open>
  \<^verbatim>\<open>re.match('(g)r', s).group(1)\<close>: the part of \<open>s\<close> that \<open>g\<close> took in the first way of
  matching \<open>g\<close> after which \<open>r\<close> matches; \<open>None\<close> when there is no match.
\<close>

definition match_group1 :: "rx \<Rightarrow> rx \<Rightarrow> ustring \<Rightarrow> ustring option" where
  "match_group1 g r s =
     (case filter (re_match r) (rests g s) of
        [] \<Rightarrow> None
      | q # _ \<Rightarrow> Some (take (length s - length q) s))"

text \<open>
  The words a pattern matches, in the usual reading of a regular expression. It is used
  in proofs only: \<open>rests\<close> produces exactly the remainders of the prefixes that
  match (lemma \<open>rests_iff\<close>).
\<close>

inductive matches :: "rx \<Rightarrow> ustring \<Rightarrow> bool" where
  m_cls: "P c \<Longrightarrow> matches (RCls P) [c]"
| m_eps: "matches REps []"
| m_seq: "matches r1 u \<Longrightarrow> matches r2 v \<Longrightarrow> matches (RSeq r1 r2) (u @ v)"
| m_alt1: "matches r1 u \<Longrightarrow> matches (RAlt r1 r2) u"
| m_alt2: "matches r2 u \<Longrightarrow> matches (RAlt r1 r2) u"
| m_star0: "matches (RStar r) []"
| m_star: "matches r u \<Longrightarrow> u \<noteq> [] \<Longrightarrow> matches (RStar r) v \<Longrightarrow> matches (RStar r) (u @ v)"

section \<open>The data model\<close>

text \<open>
  Font sizes and coordinates are Python floats, that is finite IEEE 754 doubles; page
  indices and counts are Python integers. The model takes a float as the rational it
  is, so comparisons are exact, as they are in Python (also between a float and an
  integer). A float subtraction or product is the exact result rounded to the nearest
  double, ties to the even significand: \<open>to_double\<close>, with 53 bits of precision and the
  subnormal spacing \<open>2 ^ -1074\<close> below \<open>2 ^ -1022\<close>. The sources only compare such
  results with finite doubles, so the overflow of a result to infinity need not be
  modelled: the rounded rational is then at least \<open>2 ^ 1024\<close> in size and every
  comparison comes out as it does with infinity. A decimal literal such as \<^verbatim>\<open>1.4\<close> is
  the double nearest to it.
\<close>

text \<open>\<^verbatim>\<open>int.bit_length\<close> of a non-negative integer.\<close>

function bit_length :: "int \<Rightarrow> int" where
  "bit_length n = (if n \<le> 0 then 0 else 1 + bit_length (n div 2))"
  by pat_completeness auto
termination
  by (relation "measure nat") auto

definition pow2 :: "int \<Rightarrow> rat" where
  "pow2 e = (if 0 \<le> e then 2 ^ nat e else 1 / 2 ^ nat (- e))"

definition to_double :: "rat \<Rightarrow> rat" where
  "to_double x =
     (if x = 0 then 0
      else
        (let a = \<bar>x\<bar>;
             l = bit_length (fst (quotient_of a)) - bit_length (snd (quotient_of a));
             e = (if pow2 l \<le> a then l else l - 1);
             ulp = pow2 (max e (- 1022) - 52);
             k = a / ulp;
             f = \<lfloor>k\<rfloor>;
             rest = k - of_int f;
             m = (if rest < 1 / 2 then f
                  else if 1 / 2 < rest then f + 1
                  else if even f then f else f + 1)
         in sgn x * of_int m * ulp))"

definition fsub :: "rat \<Rightarrow> rat \<Rightarrow> rat" where
  "fsub a b = to_double (a - b)"

definition fmul :: "rat \<Rightarrow> rat \<Rightarrow> rat" where
  "fmul a b = to_double (a * b)"

type_synonym bbox = "rat \<times> rat \<times> rat \<times> rat"

record logical_line =
  "text" :: ustring
  font_size :: rat
  font_name :: ustring
  is_bold :: bool
  page :: int
  bbox :: bbox

definition bbox0 :: "'a logical_line_scheme \<Rightarrow> rat" where
  "bbox0 l = fst (bbox l)"

definition bbox1 :: "'a logical_line_scheme \<Rightarrow> rat" where
  "bbox1 l = fst (snd (bbox l))"

definition bbox3 :: "'a logical_line_scheme \<Rightarrow> rat" where
  "bbox3 l = snd (snd (snd (bbox l)))"

datatype level = H1 | H2 | H3

record heading = logical_line +
  level :: level

text \<open>\<^verbatim>\<open>{**line, 'level': level}\<close>: a fresh dictionary, the line's fields and the level.\<close>

definition with_level :: "logical_line \<Rightarrow> level \<Rightarrow> heading" where
  "with_level l lv = logical_line.extend l (heading.fields lv)"

text \<open>
  The profile of \<^verbatim>\<open>outline_extractor.py\<close> has two keys; the one of \<^verbatim>\<open>process_pdfs.py\<close>
  has \<^verbatim>\<open>left_margin\<close> as well.
\<close>

record profile_oe =
  baseline_font_size :: rat
  page_offset :: int

record profile = profile_oe +
  left_margin :: int

record outline_entry =
  entry_level :: level
  entry_text :: ustring
  entry_page :: int

record pdf_result =
  title :: ustring
  outline :: "outline_entry list"

text \<open>
  \<^verbatim>\<open>extract_and_group_lines\<close> opens the document with PyMuPDF and groups its spans into
  logical lines; that part is outside the model. Its outcome is the input here: either
  the exception it raised, or the logical lines and \<^verbatim>\<open>doc.page_count\<close>.
\<close>

datatype error = DocumentError

type_synonym extracted = "error + (logical_line list \<times> int)"

section \<open>\<^verbatim>\<open>process_pdfs.py\<close>\<close>

subsection \<open>Stage 1: the document profile\<close>

text \<open>
  \<^verbatim>\<open>Counter(xs).most_common(1)[0][0]\<close>: the element with the highest count, the first
  one met when several share it. \<open>None\<close> stands for the \<^verbatim>\<open>IndexError\<close> on an empty list,
  which both callers guard against.
\<close>

definition first_seen :: "'a list \<Rightarrow> 'a list" where
  "first_seen xs = rev (remdups (rev xs))"

definition most_common1 :: "'a list \<Rightarrow> 'a option" where
  "most_common1 xs =
     (case map (\<lambda>k. (k, count_list xs k)) (first_seen xs) of
        [] \<Rightarrow> None
      | kv # kvs \<Rightarrow> Some (fst (foldl (\<lambda>best kv'. if snd best < snd kv' then kv' else best) kv kvs)))"

text \<open>\<^verbatim>\<open>int(x)\<close> on a float: truncation towards zero.\<close>

definition py_int :: "rat \<Rightarrow> int" where
  "py_int x = (if 0 \<le> x then \<lfloor>x\<rfloor> else \<lceil>x\<rceil>)"

text \<open>The block \<^verbatim>\<open># Build Document Profile\<close> of \<^verbatim>\<open>extract_and_group_lines\<close>.\<close>

definition build_profile :: "logical_line list \<Rightarrow> int \<Rightarrow> profile" where
  "build_profile logical_lines page_count =
     (let font_sizes = map font_size (filter (\<lambda>s. length (text s) > 15) logical_lines);
          page_0_lines = filter (\<lambda>line. page line = 0) logical_lines;
          left_margins =
            map (\<lambda>line. py_int (bbox0 line)) (filter (\<lambda>line. length (text line) > 20) logical_lines)
      in \<lparr>baseline_font_size = (case most_common1 font_sizes of Some m \<Rightarrow> m | None \<Rightarrow> 10),
          page_offset = (if length page_0_lines < 10 \<and> page_count > 1 then 1 else 0),
          left_margin = (case most_common1 left_margins of Some m \<Rightarrow> m | None \<Rightarrow> 72)\<rparr>)"

subsection \<open>Stage 2: title and headings\<close>

definition extract_title :: "logical_line list \<Rightarrow> ustring" where
  "extract_title lines =
     (case filter (\<lambda>line. page line = 0) lines of
        [] \<Rightarrow> []
      | l # ls \<Rightarrow>
          (let page_0_lines = l # ls;
               max_font_size = fold max (map font_size ls) (font_size l);
               title_lines =
                 filter (\<lambda>line. \<bar>fsub (font_size line) max_font_size\<bar> < 1 / 2) page_0_lines
           in strip (concat (map text (sort_key (\<lambda>l. (bbox1 l, bbox0 l)) title_lines)))))"

text \<open>The character classes \<^verbatim>\<open>[0-9\<dots>]\<close> (ASCII, full-width and Devanagari digits) and
  \<^verbatim>\<open>[.\<dots>]\<close> (full stop, full-width full stop, ideographic comma).\<close>

definition is_numeral :: "int \<Rightarrow> bool" where
  "is_numeral c \<longleftrightarrow>
     (0x30 \<le> c \<and> c \<le> 0x39) \<or> (0xFF10 \<le> c \<and> c \<le> 0xFF19) \<or> (0x0966 \<le> c \<and> c \<le> 0x096F)"

definition is_separator :: "int \<Rightarrow> bool" where
  "is_separator c \<longleftrightarrow> c = 0x2E \<or> c = 0xFF0E \<or> c = 0x3001"

definition rnum :: rx where
  "rnum = rplus (RCls is_numeral)"

definition pattern_H1 :: rx where
  "pattern_H1 = RSeq rnum (RSeq (RCls is_separator) rspace)"

definition pattern_H2 :: rx where
  "pattern_H2 = RSeq (RSeq rnum (RSeq (rchr 0x2E) rnum)) rspace"

definition pattern_H3 :: rx where
  "pattern_H3 =
     RSeq (RSeq rnum (RSeq (rchr 0x2E) (RSeq rnum (RSeq (rchr 0x2E) rnum)))) rspace"

definition structural_patterns :: "(rx \<times> level) list" where
  "structural_patterns = [(pattern_H1, H1), (pattern_H2, H2), (pattern_H3, H3)]"

definition special_h1s :: "ustring list" where
  "special_h1s =
     [ustr ''Revision History'', ustr ''Table of Contents'', ustr ''Acknowledgements'',
      ustr ''References'',
      [0x6539, 0x8A02, 0x5C65, 0x6B74], [0x76EE, 0x6B21], [0x8B1D, 0x8F9E],
      [0x53C2, 0x8003, 0x6587, 0x732E],
      [0x4FEE, 0x8BA2, 0x5386, 0x53F2], [0x76EE, 0x5F55], [0x81F4, 0x8C22],
      [0x938, 0x902, 0x936, 0x94B, 0x927, 0x928, 0x20, 0x907, 0x924, 0x93F, 0x939, 0x93E, 0x938],
      [0x935, 0x93F, 0x937, 0x92F, 0x2D, 0x938, 0x942, 0x91A, 0x940],
      [0x906, 0x92D, 0x93E, 0x930],
      [0x938, 0x902, 0x926, 0x930, 0x94D, 0x92D]]"

text \<open>Rule 0: \<^verbatim>\<open>'....' in text or re.match(r'^\d\.\d+\s+\d{1,2}\s+[A-Z]{3,}', text)\<close>.\<close>

definition table_row_pattern :: rx where
  "table_row_pattern =
     RSeq rdigit (RSeq (rchr 0x2E) (RSeq (rplus rdigit) (RSeq (rplus rspace)
       (RSeq (RSeq rdigit (ropt rdigit)) (RSeq (rplus rspace) rupper3)))))"

definition negative_filter :: "ustring \<Rightarrow> bool" where
  "negative_filter t \<longleftrightarrow> contains (ustr ''....'') t \<or> re_match table_row_pattern t"

text \<open>
  Rule 1, the loop over \<^verbatim>\<open>structural_patterns\<close>: the first pattern that matches while
  the line starts within 15 points of the left margin gives the level and ends the loop.
\<close>

fun match_structure :: "(rx \<times> level) list \<Rightarrow> logical_line \<Rightarrow> int \<Rightarrow> level option" where
  "match_structure [] line lm = None"
| "match_structure ((pattern, lv) # ps) line lm =
     (if re_match pattern (text line) then
        (if \<bar>fsub (bbox0 line) (of_int lm)\<bar> < 15 then Some lv else match_structure ps line lm)
      else match_structure ps line lm)"

text \<open>The body of the loop over the lines: at most one heading for a line.\<close>

definition classify_line :: "profile \<Rightarrow> logical_line \<Rightarrow> heading option" where
  "classify_line prof line =
     (if negative_filter (text line) then None
      else case match_structure structural_patterns line (left_margin prof) of
        Some lv \<Rightarrow> Some (with_level line lv)
      | None \<Rightarrow>
          (if strip (text line) \<in> set special_h1s then
             (if is_bold line \<or> font_size line > baseline_font_size prof
              then Some (with_level line H1) else None)
           else None))"

definition find_headings :: "logical_line list \<Rightarrow> profile \<Rightarrow> heading list" where
  "find_headings lines prof = List.map_filter (classify_line prof) lines"

subsection \<open>Stage 3: the finalizer\<close>

definition h1_pattern :: rx where
  "h1_pattern = RSeq rnum (RSeq (RCls is_separator) (RStar rspace))"

definition numbered_pattern :: rx where
  "numbered_pattern = RSeq rnum (RCls is_separator)"

text \<open>
  The \<^verbatim>\<open>while\<close> loop: the index \<^verbatim>\<open>i\<close> is the start of the list that is left. A merge
  takes two headings off it, so the merged heading is never \<^verbatim>\<open>current\<close> again.
\<close>

fun merge_loop :: "heading list \<Rightarrow> heading list" where
  "merge_loop [] = []"
| "merge_loop [current] = [current]"
| "merge_loop (current # nxt # rest) =
     (if page current = page nxt \<and> re_match h1_pattern (text current)
         \<and> \<not> re_match numbered_pattern (text nxt)
      then current\<lparr>text := strip (text current) @ [0x20] @ strip (text nxt)\<rparr> # merge_loop rest
      else current # merge_loop (nxt # rest))"

text \<open>
  The \<^verbatim>\<open>for\<close> loop over \<^verbatim>\<open>merged_headings\<close> with the set \<^verbatim>\<open>seen\<close>. The same loop, word
  for word, ends \<^verbatim>\<open>finalize_outline\<close> in \<^verbatim>\<open>outline_extractor.py\<close>.
\<close>

fun dedup_loop ::
  "(ustring \<Rightarrow> ustring) \<Rightarrow> int \<Rightarrow> (ustring \<times> int) set \<Rightarrow> heading list \<Rightarrow> outline_entry list"
where
  "dedup_loop lw offset seen [] = []"
| "dedup_loop lw offset seen (item # items) =
     (let clean_text = strip (sub_ws (text item));
          final_page = page item + 1 - offset;
          key = (lw clean_text, final_page)
      in if key \<notin> seen
         then \<lparr>entry_level = level item, entry_text = clean_text @ [0x20], entry_page = final_page\<rparr>
                # dedup_loop lw offset (insert key seen) items
         else dedup_loop lw offset seen items)"

definition finalize_outline ::
  "(ustring \<Rightarrow> ustring) \<Rightarrow> heading list \<Rightarrow> 'a profile_oe_scheme \<Rightarrow> outline_entry list"
where
  "finalize_outline lw headings prof =
     (if headings = [] then []
      else dedup_loop lw (page_offset prof) {}
             (merge_loop (sort_key (\<lambda>h. (page h, bbox1 h)) headings)))"

subsection \<open>Orchestration\<close>

definition process_single_pdf :: "(ustring \<Rightarrow> ustring) \<Rightarrow> extracted \<Rightarrow> pdf_result" where
  "process_single_pdf lw doc =
     (case doc of
        Inl e \<Rightarrow> \<lparr>title = [], outline = []\<rparr>
      | Inr (lines, page_count) \<Rightarrow>
          (let prof = build_profile lines page_count;
               title = extract_title lines;
               headings = find_headings lines prof;
               outline = finalize_outline lw headings prof
           in \<lparr>title = strip title @ ustr ''  '', outline = outline\<rparr>))"

section \<open>\<^verbatim>\<open>outline_extractor.py\<close>\<close>

text \<open>
  The second pipeline of the repository, with the same stages and function names; its
  functions carry the suffix \<open>_oe\<close> here. Only the code that runs is modelled: what
  follows the first \<^verbatim>\<open>return\<close> of \<^verbatim>\<open>extract_title\<close> and of \<^verbatim>\<open>find_headings\<close> is never
  reached.
\<close>

definition build_profile_oe :: "logical_line list \<Rightarrow> profile_oe" where
  "build_profile_oe logical_lines =
     (let font_sizes = map font_size (filter (\<lambda>s. length (text s) > 20) logical_lines);
          page_0_lines = filter (\<lambda>line. page line = 0) logical_lines
      in \<lparr>baseline_font_size = (case most_common1 font_sizes of Some m \<Rightarrow> m | None \<Rightarrow> 12),
          page_offset = (if length page_0_lines < 5 then 1 else 0)\<rparr>)"

text \<open>\<^verbatim>\<open>sep.join(xs)\<close>\<close>

fun join :: "ustring \<Rightarrow> ustring list \<Rightarrow> ustring" where
  "join sep [] = []"
| "join sep [x] = x"
| "join sep (x # y # ys) = x @ sep @ join sep (y # ys)"

definition extract_title_oe :: "logical_line list \<Rightarrow> ustring" where
  "extract_title_oe lines =
     (case filter (\<lambda>line. page line = 0) lines of
        [] \<Rightarrow> []
      | l # ls \<Rightarrow>
          (let page_0_lines = l # ls;
               max_y = fold max (map bbox3 ls) (bbox3 l)
           in case filter (\<lambda>line. bbox1 line < fmul (to_double (4 / 10)) max_y) page_0_lines of
                [] \<Rightarrow> []
              | t # ts \<Rightarrow>
                  (let top_lines = t # ts;
                       max_font = fold max (map font_size ts) (font_size t);
                       candidate_lines =
                         filter (\<lambda>line. \<bar>fsub (font_size line) max_font\<bar> \<le> 1 / 2) top_lines;
                       title = join [0x20] (map (\<lambda>line. strip (text line)) candidate_lines)
                   in strip (sub_ws title))))"

text \<open>
  The structure rule of \<^verbatim>\<open>is_strong_heading\<close>:
  \<^verbatim>\<open>re.match(r'^(\d+(\.\d+)*)\s+.+', text)\<close>, then the dots of group 1 are counted.
\<close>

definition level_tag :: "nat \<Rightarrow> level" where
  "level_tag n = (if n = 1 then H1 else if n = 2 then H2 else H3)"

definition numbered_group :: rx where
  "numbered_group = RSeq (rplus rdigit) (RStar (RSeq (rchr 0x2E) (rplus rdigit)))"

definition numbered_tail :: rx where
  "numbered_tail = RSeq (rplus rspace) (rplus rany)"

definition numbered_level :: "ustring \<Rightarrow> level option" where
  "numbered_level t =
     (case match_group1 numbered_group numbered_tail t of
        None \<Rightarrow> None
      | Some g \<Rightarrow>
          (let lv = count_list g 0x2E + 1 in if lv \<le> 3 then Some (level_tag lv) else None))"

definition common_section_prefixes :: "rx list" where
  "common_section_prefixes =
     [RSeq (rlit (ustr ''Chapter'')) (RSeq (rplus rspace) (rplus rdigit)),
      RSeq (rlit (ustr ''Section'')) (RSeq (rplus rspace) (rplus rdigit)),
      RSeq (rlit [0x43, 0x61, 0x70, 0xED, 0x74, 0x75, 0x6C, 0x6F]) (RSeq (rplus rspace) (rplus rdigit)),
      RSeq (rlit [0x905, 0x927, 0x94D, 0x92F, 0x93E, 0x92F]) (RSeq (rplus rspace) (rplus rdigit)),
      RSeq (rlit [0x92A, 0x94D, 0x930, 0x915, 0x930, 0x923]) (RSeq (rplus rspace) (rplus rdigit)),
      RSeq (rchr 0x7B2C) (RSeq (rplus rdigit) (rchr 0x7AE0)),
      RSeq (rchr 0x7B2C) (RSeq (rplus rdigit) (rchr 0x8282))]"

definition date_pattern :: rx where
  "date_pattern = RSeq (RSeq rdigit (ropt rdigit)) (RSeq (rchr 0x20) rupper3)"

definition page_footer_pattern :: rx where
  "page_footer_pattern =
     RSeq (rlit (ustr ''page'')) (RSeq (rplus rspace) (RSeq (rplus rdigit) (RSeq (rplus rspace)
       (RSeq (rlit (ustr ''of'')) (RSeq (rplus rspace) (rplus rdigit))))))"

definition is_strong_heading ::
  "(ustring \<Rightarrow> ustring) \<Rightarrow> rat \<Rightarrow> logical_line \<Rightarrow> level option"
where
  "is_strong_heading lw baseline_size line =
     (let t = strip (text line) in
      if length t < 3 \<or> length (split_ws t) > 20 then None
      else if re_match date_pattern t then None
      else if re_match page_footer_pattern (lw t) then None
      else case numbered_level t of
        Some lv \<Rightarrow> Some lv
      | None \<Rightarrow>
          (if list_ex (\<lambda>pat. re_match pat t) common_section_prefixes then Some H1
           else if font_size line > fmul baseline_size (to_double (14 / 10)) \<and> is_bold line
                   \<and> length (split_ws t) \<le> 10
                then Some H2
           else None))"

definition strong_H1s :: "ustring list" where
  "strong_H1s =
     [ustr ''Revision History'', ustr ''Table of Contents'', ustr ''Acknowledgements'',
      ustr ''References'']"

text \<open>The two loops of \<^verbatim>\<open>find_headings\<close>: the keyword override first, then the rest.\<close>

definition find_headings_oe ::
  "(ustring \<Rightarrow> ustring) \<Rightarrow> logical_line list \<Rightarrow> 'a profile_oe_scheme \<Rightarrow> heading list"
where
  "find_headings_oe lw lines prof =
     map (\<lambda>line. with_level line H1) (filter (\<lambda>line. strip (text line) \<in> set strong_H1s) lines)
     @ List.map_filter
         (\<lambda>line. if strip (text line) \<in> set strong_H1s then None
                 else map_option (with_level line)
                        (is_strong_heading lw (baseline_font_size prof) line))
         lines"

text \<open>\<^verbatim>\<open>s.replace(' - ', ' \<dots> ')\<close> with an en dash (U+2013), left to right.\<close>

fun replace_dash :: "ustring \<Rightarrow> ustring" where
  "replace_dash (a # b # c # rest) =
     (if a = 0x20 \<and> b = 0x2D \<and> c = 0x20 then [0x20, 0x2013, 0x20] @ replace_dash rest
      else a # replace_dash (b # c # rest))"
| "replace_dash s = s"

text \<open>The two patterns of the merge test, \<^verbatim>\<open>^\d\.\s\<close> and \<^verbatim>\<open>^\d\.\<close>.\<close>

definition stub_pattern_oe :: rx where
  "stub_pattern_oe = RSeq rdigit (RSeq (rchr 0x2E) rspace)"

definition numbered_pattern_oe :: rx where
  "numbered_pattern_oe = RSeq rdigit (rchr 0x2E)"

fun merge_loop_oe :: "heading list \<Rightarrow> heading list" where
  "merge_loop_oe [] = []"
| "merge_loop_oe [current] = [current]"
| "merge_loop_oe (current # nxt # rest) =
     (if page current = page nxt \<and> re_match stub_pattern_oe (text current)
         \<and> \<not> re_match numbered_pattern_oe (text nxt)
      then current\<lparr>text := replace_dash (text current) @ text nxt\<rparr> # merge_loop_oe rest
      else current # merge_loop_oe (nxt # rest))"

definition finalize_outline_oe ::
  "(ustring \<Rightarrow> ustring) \<Rightarrow> heading list \<Rightarrow> 'a profile_oe_scheme \<Rightarrow> outline_entry list"
where
  "finalize_outline_oe lw headings prof =
     (if headings = [] then []
      else dedup_loop lw (page_offset prof) {}
             (merge_loop_oe (sort_key (\<lambda>h. (page h, bbox1 h)) headings)))"

definition process_single_pdf_oe :: "(ustring \<Rightarrow> ustring) \<Rightarrow> extracted \<Rightarrow> pdf_result" where
  "process_single_pdf_oe lw doc =
     (case doc of
        Inl e \<Rightarrow> \<lparr>title = [], outline = []\<rparr>
      | Inr (lines, page_count) \<Rightarrow>
          (let prof = build_profile_oe lines;
               title = extract_title_oe lines;
               headings = find_headings_oe lw lines prof;
               outline = finalize_outline_oe lw headings prof
           in \<lparr>title = strip title @ ustr ''  '', outline = outline\<rparr>))"

section \<open>Notions used in the statements\<close>

text \<open>
  A non-empty run of the numerals of \<^verbatim>\<open>process_pdfs.py\<close>; a non-empty run of decimal
  digits (\<^verbatim>\<open>\d+\<close>); the characters a dotted number is made of.
\<close>

definition numeral_run :: "ustring \<Rightarrow> bool" where
  "numeral_run ds \<longleftrightarrow> ds \<noteq> [] \<and> list_all is_numeral ds"

definition decimal_run :: "ustring \<Rightarrow> bool" where
  "decimal_run ds \<longleftrightarrow> ds \<noteq> [] \<and> list_all is_decimal ds"

definition dotted :: "int \<Rightarrow> bool" where
  "dotted c \<longleftrightarrow> is_decimal c \<or> c = 0x2E"

text \<open>
  A text in which whitespace occurs only as a single U+0020 between two other characters
  or at an end.
\<close>

fun single_spaced :: "ustring \<Rightarrow> bool" where
  "single_spaced (a # b # r) \<longleftrightarrow> (is_space a \<longrightarrow> a = 0x20 \<and> \<not> is_space b) \<and> single_spaced (b # r)"
| "single_spaced [a] \<longleftrightarrow> (is_space a \<longrightarrow> a = 0x20)"
| "single_spaced [] \<longleftrightarrow> True"

text \<open>
  The key of the deduplication, \<^verbatim>\<open>(clean_text.lower(), final_page)\<close>, of a heading and
  of an outline entry (whose text is the clean text and one space), and the entry that
  the last loop of the finalizer makes of a heading.
\<close>

definition dedup_key :: "(ustring \<Rightarrow> ustring) \<Rightarrow> int \<Rightarrow> heading \<Rightarrow> ustring \<times> int" where
  "dedup_key lw offset m = (lw (strip (sub_ws (text m))), page m + 1 - offset)"

definition entry_key :: "(ustring \<Rightarrow> ustring) \<Rightarrow> outline_entry \<Rightarrow> ustring \<times> int" where
  "entry_key lw e = (lw (butlast (entry_text e)), entry_page e)"

definition entry_of :: "int \<Rightarrow> heading \<Rightarrow> outline_entry" where
  "entry_of offset m =
     \<lparr>entry_level = level m, entry_text = strip (sub_ws (text m)) @ [0x20],
      entry_page = page m + 1 - offset\<rparr>"

text \<open>
  The deduplication in the words of the specification: keep only the first occurrence of
  every key, in the order of the list, and discard the later duplicates.
\<close>

fun keep_first_by :: "('a \<Rightarrow> 'k) \<Rightarrow> 'a list \<Rightarrow> 'a list" where
  "keep_first_by f [] = []"
| "keep_first_by f (x # xs) = x # keep_first_by f (filter (\<lambda>y. f y \<noteq> f x) xs)"

section \<open>Lines and headings of the scenarios\<close>

text \<open>
  A line with the given text, font size, boldness, page index and top-left corner; a
  heading made of such a line.
\<close>

definition line_at :: "string \<Rightarrow> rat \<Rightarrow> bool \<Rightarrow> int \<Rightarrow> rat \<Rightarrow> rat \<Rightarrow> logical_line" where
  "line_at t fs b p x y =
     \<lparr>text = ustr t, font_size = fs, font_name = ustr ''Arial'', is_bold = b, page = p,
      bbox = (x, y, x + 200, y + fs)\<rparr>"

definition heading_at :: "string \<Rightarrow> level \<Rightarrow> int \<Rightarrow> rat \<Rightarrow> heading" where
  "heading_at t lv p y = with_level (line_at t 12 True p 72 y) lv"

section \<open>Basic facts about the model\<close>

lemma with_level_simps [simp]:
  "text (with_level l lv) = text l"
  "font_size (with_level l lv) = font_size l"
  "is_bold (with_level l lv) = is_bold l"
  "page (with_level l lv) = page l"
  "bbox (with_level l lv) = bbox l"
  "level (with_level l lv) = lv"
  by (simp_all add: with_level_def logical_line.defs heading.defs)

lemma line_at_simps [simp]:
  "text (line_at t fs b p x y) = ustr t"
  "font_size (line_at t fs b p x y) = fs"
  "is_bold (line_at t fs b p x y) = b"
  "page (line_at t fs b p x y) = p"
  "bbox (line_at t fs b p x y) = (x, y, x + 200, y + fs)"
  by (simp_all add: line_at_def)

lemma heading_at_simps [simp]:
  "text (heading_at t lv p y) = ustr t"
  "page (heading_at t lv p y) = p"
  "level (heading_at t lv p y) = lv"
  by (simp_all add: heading_at_def)

text \<open>
  The rounding at work: the double nearest to 1.4, the products \<^verbatim>\<open>22.5 * 1.4\<close>
  (31.499999999999996 in Python) and \<^verbatim>\<open>0.4 * 43.0\<close> (the double 17.2), and two
  differences.
\<close>

lemma double_rounding_examples:
  "to_double (14 / 10) = 3152519739159347 / 2251799813685248"
  "fmul (45 / 2) (to_double (14 / 10)) = 8866461766385663 / 281474976710656"
  "fmul (to_double (4 / 10)) 43 = to_double (172 / 10)"
  "fsub (1 + 1 / 2 ^ 52) 16 = - 15"
  "fsub 200 72 = 128"
  by code_simp+

section \<open>Where an outline entry comes from\<close>

lemma dedup_loop_source:
  "e \<in> set (dedup_loop lw off seen ms) \<Longrightarrow>
   \<exists>m\<in>set ms. e = \<lparr>entry_level = level m, entry_text = strip (sub_ws (text m)) @ [0x20],
                     entry_page = page m + 1 - off\<rparr>"
  by (induction ms arbitrary: seen) (auto simp: Let_def split: if_splits)

lemma merge_loop_source:
  "m \<in> set (merge_loop hs) \<Longrightarrow> \<exists>h\<in>set hs. page m = page h \<and> level m = level h"
  by (induction hs rule: merge_loop.induct) (auto split: if_splits)

lemma merge_loop_oe_source:
  "m \<in> set (merge_loop_oe hs) \<Longrightarrow> \<exists>h\<in>set hs. page m = page h \<and> level m = level h"
  by (induction hs rule: merge_loop_oe.induct) (auto split: if_splits)

lemma finalize_outline_source:
  assumes "e \<in> set (finalize_outline lw hs prof)"
  shows "\<exists>h\<in>set hs. entry_page e = page h + 1 - page_offset prof \<and> entry_level e = level h"
proof -
  from assms have "e \<in> set (dedup_loop lw (page_offset prof) {}
      (merge_loop (sort_key (\<lambda>h. (page h, bbox1 h)) hs)))"
    by (simp add: finalize_outline_def split: if_splits)
  then obtain m where m: "m \<in> set (merge_loop (sort_key (\<lambda>h. (page h, bbox1 h)) hs))"
    and e: "entry_page e = page m + 1 - page_offset prof" "entry_level e = level m"
    by (auto dest!: dedup_loop_source)
  from merge_loop_source[OF m] obtain h where "h \<in> set hs" "page m = page h" "level m = level h"
    by auto
  with e show ?thesis by auto
qed

lemma finalize_outline_oe_source:
  assumes "e \<in> set (finalize_outline_oe lw hs prof)"
  shows "\<exists>h\<in>set hs. entry_page e = page h + 1 - page_offset prof \<and> entry_level e = level h"
proof -
  from assms have "e \<in> set (dedup_loop lw (page_offset prof) {}
      (merge_loop_oe (sort_key (\<lambda>h. (page h, bbox1 h)) hs)))"
    by (simp add: finalize_outline_oe_def split: if_splits)
  then obtain m where m: "m \<in> set (merge_loop_oe (sort_key (\<lambda>h. (page h, bbox1 h)) hs))"
    and e: "entry_page e = page m + 1 - page_offset prof" "entry_level e = level m"
    by (auto dest!: dedup_loop_source)
  from merge_loop_oe_source[OF m] obtain h where "h \<in> set hs" "page m = page h" "level m = level h"
    by auto
  with e show ?thesis by auto
qed

lemma finalize_outline_single:
  "finalize_outline lw [h] prof =
     [\<lparr>entry_level = level h, entry_text = strip (sub_ws (text h)) @ [0x20],
       entry_page = page h + 1 - page_offset prof\<rparr>]"
  by (simp add: finalize_outline_def Let_def)

lemma finalize_outline_oe_single:
  "finalize_outline_oe lw [h] prof =
     [\<lparr>entry_level = level h, entry_text = strip (sub_ws (text h)) @ [0x20],
       entry_page = page h + 1 - page_offset prof\<rparr>]"
  by (simp add: finalize_outline_oe_def Let_def)

section \<open>The page offset\<close>

text \<open>
  Claim C5 (page-offset computation), as the code has it. The profiler of
  \<^verbatim>\<open>process_pdfs.py\<close> sets \<open>page_offset\<close> to 1 exactly when page 0 holds fewer than 10
  logical lines and the document has more than one page, and to 0 otherwise. The
  profiler of \<^verbatim>\<open>outline_extractor.py\<close> sets it to 1 exactly when page 0 holds fewer than
  5 logical lines, whatever the number of pages, and to 0 otherwise.
\<close>

theorem page_offset_computation:
  "page_offset (build_profile ls pc) =
     (if length (filter (\<lambda>line. page line = 0) ls) < 10 \<and> pc > 1 then 1 else 0)
   \<and> page_offset (build_profile_oe ls) =
     (if length (filter (\<lambda>line. page line = 0) ls) < 5 then 1 else 0)"
  by (simp add: build_profile_def build_profile_oe_def Let_def)

text \<open>
  The claim as written fails in \<^verbatim>\<open>outline_extractor.py\<close>: a single-page document with
  one line gets \<open>page_offset = 1\<close>, and its heading is reported on page 0.
\<close>

theorem sparse_single_page_counterexample:
  "page_offset (build_profile_oe [line_at ''References'' 12 True 0 72 100]) = 1
   \<and> map entry_page (outline (process_single_pdf_oe lower_ascii
        (Inr ([line_at ''References'' 12 True 0 72 100], 1)))) = [0]"
  by code_simp

section \<open>The matcher and the words of a pattern\<close>

text \<open>
  The equation of \<open>rests\<close> for a repetition calls itself under a condition, so it is
  unfolded by hand and not by the simplifier.
\<close>

declare rests.simps(5) [simp del]

lemma rests_sound:
  "q \<in> set (rests r s) \<Longrightarrow> \<exists>p. matches r p \<and> s = p @ q"
proof (induction r s arbitrary: q rule: rests.induct)
  case (1 P s)
  then show ?case
    by (auto split: list.splits if_splits intro: m_cls)
next
  case (2 s)
  then show ?case by (auto intro: m_eps)
next
  case (3 r1 r2 s)
  from "3.prems" obtain q1 where q1: "q1 \<in> set (rests r1 s)" and q: "q \<in> set (rests r2 q1)"
    by auto
  from "3.IH"(1)[OF q1] obtain p1 where p1: "matches r1 p1" "s = p1 @ q1" by blast
  from "3.IH"(2)[OF q1 q] obtain p2 where p2: "matches r2 p2" "q1 = p2 @ q" by blast
  from p1 p2 have "matches (RSeq r1 r2) (p1 @ p2)" "s = (p1 @ p2) @ q"
    by (auto intro: m_seq)
  then show ?case by blast
next
  case (4 r1 r2 s)
  from "4.prems" have "q \<in> set (rests r1 s) \<or> q \<in> set (rests r2 s)" by simp
  then show ?case
    using "4.IH" by (blast intro: m_alt1 m_alt2)
next
  case (5 r s)
  show ?case
  proof (cases "q = s")
    case True
    then show ?thesis by (auto intro: m_star0)
  next
    case False
    have step: "rests (RStar r) s =
        concat (map (\<lambda>q. if length q < length s then rests (RStar r) q else []) (rests r s)) @ [s]"
      by (rule rests.simps(5))
    from "5.prems" False obtain q1 where q1: "q1 \<in> set (rests r s)"
      and len: "length q1 < length s" and q: "q \<in> set (rests (RStar r) q1)"
      unfolding step by (auto split: if_splits)
    from "5.IH"(1)[OF q1] obtain p1 where p1: "matches r p1" "s = p1 @ q1" by blast
    from "5.IH"(2)[OF q1 len q] obtain p2 where p2: "matches (RStar r) p2" "q1 = p2 @ q" by blast
    from p1 len have "p1 \<noteq> []" by auto
    with p1 p2 have "matches (RStar r) (p1 @ p2)" "s = (p1 @ p2) @ q"
      by (auto intro: m_star)
    then show ?thesis by blast
  qed
qed

lemma rests_star_same: "s \<in> set (rests (RStar r) s)"
  by (subst rests.simps(5)) simp

lemma rests_star_step:
  "q1 \<in> set (rests r s) \<Longrightarrow> length q1 < length s \<Longrightarrow> q \<in> set (rests (RStar r) q1)
   \<Longrightarrow> q \<in> set (rests (RStar r) s)"
  by (subst rests.simps(5)) (simp, blast)

lemma rests_complete:
  "matches r p \<Longrightarrow> q \<in> set (rests r (p @ q))"
proof (induction r p arbitrary: q rule: matches.induct)
  case (m_cls P c)
  then show ?case by simp
next
  case m_eps
  show ?case by simp
next
  case (m_seq r1 u r2 v)
  have "v @ q \<in> set (rests r1 (u @ v @ q))" by (rule m_seq.IH(1))
  moreover have "q \<in> set (rests r2 (v @ q))" by (rule m_seq.IH(2))
  ultimately show ?case by auto
next
  case (m_alt1 r1 u r2)
  then show ?case by simp
next
  case (m_alt2 r2 u r1)
  then show ?case by simp
next
  case (m_star0 r)
  show ?case by (simp add: rests_star_same)
next
  case (m_star r u v)
  have "v @ q \<in> set (rests r (u @ v @ q))" by (rule m_star.IH(1))
  moreover have "length (v @ q) < length (u @ v @ q)" using m_star.hyps(2) by simp
  moreover have "q \<in> set (rests (RStar r) (v @ q))" by (rule m_star.IH(2))
  ultimately show ?case
    using rests_star_step by simp
qed

lemma rests_iff: "q \<in> set (rests r s) \<longleftrightarrow> (\<exists>p. matches r p \<and> s = p @ q)"
  using rests_sound rests_complete by blast

lemma re_match_iff: "re_match r s \<longleftrightarrow> (\<exists>p q. matches r p \<and> s = p @ q)"
proof -
  have "re_match r s \<longleftrightarrow> (\<exists>q. q \<in> set (rests r s))"
    by (cases "rests r s") (auto simp: re_match_def)
  then show ?thesis by (auto simp: rests_iff)
qed

section \<open>Facts about patterns\<close>

inductive_cases matches_clsE: "matches (RCls P) w"
inductive_cases matches_epsE: "matches REps w"
inductive_cases matches_seqE: "matches (RSeq r1 r2) w"
inductive_cases matches_altE: "matches (RAlt r1 r2) w"

lemma matches_cls_iff [simp]: "matches (RCls P) w \<longleftrightarrow> (\<exists>c. w = [c] \<and> P c)"
  by (auto elim: matches_clsE intro: m_cls)

lemma matches_eps_iff [simp]: "matches REps w \<longleftrightarrow> w = []"
  by (auto elim: matches_epsE intro: m_eps)

lemma matches_seq_iff: "matches (RSeq r1 r2) w \<longleftrightarrow> (\<exists>u v. w = u @ v \<and> matches r1 u \<and> matches r2 v)"
proof
  assume "matches (RSeq r1 r2) w"
  then show "\<exists>u v. w = u @ v \<and> matches r1 u \<and> matches r2 v"
    by (rule matches_seqE) blast
next
  assume "\<exists>u v. w = u @ v \<and> matches r1 u \<and> matches r2 v"
  then show "matches (RSeq r1 r2) w" by (auto intro: m_seq)
qed

lemma matches_alt_iff [simp]: "matches (RAlt r1 r2) w \<longleftrightarrow> matches r1 w \<or> matches r2 w"
  by (auto elim: matches_altE intro: m_alt1 m_alt2)

lemma matches_star_cls_all: "matches r w \<Longrightarrow> r = RStar (RCls P) \<Longrightarrow> list_all P w"
  by (induction r w rule: matches.induct) auto

lemma all_matches_star_cls: "list_all P w \<Longrightarrow> matches (RStar (RCls P)) w"
proof (induction w)
  case Nil
  show ?case by (rule m_star0)
next
  case (Cons c w)
  then have "matches (RCls P) [c]" "matches (RStar (RCls P)) w" by simp_all
  then have "matches (RStar (RCls P)) ([c] @ w)" by (intro m_star) simp_all
  then show ?case by simp
qed

lemma matches_star_cls_iff [simp]: "matches (RStar (RCls P)) w \<longleftrightarrow> list_all P w"
  using matches_star_cls_all all_matches_star_cls by blast

lemma matches_plus_cls_iff [simp]:
  "matches (rplus (RCls P)) w \<longleftrightarrow> w \<noteq> [] \<and> list_all P w"
proof (cases w)
  case Nil
  then show ?thesis by (simp add: rplus_def matches_seq_iff)
next
  case (Cons c w')
  have "(\<exists>u v. c # w' = u @ v \<and> (\<exists>d. u = [d] \<and> P d) \<and> list_all P v) \<longleftrightarrow> P c \<and> list_all P w'"
  proof
    assume "P c \<and> list_all P w'"
    then have "c # w' = [c] @ w' \<and> (\<exists>d. [c] = [d] \<and> P d) \<and> list_all P w'" by simp
    then show "\<exists>u v. c # w' = u @ v \<and> (\<exists>d. u = [d] \<and> P d) \<and> list_all P v" by blast
  qed auto
  with Cons show ?thesis by (simp add: rplus_def matches_seq_iff)
qed

lemma matches_rchr_iff [simp]: "matches (rchr c) w \<longleftrightarrow> w = [c]"
  by (auto simp: rchr_def)

text \<open>A run of \<open>P\<close> followed by something that is not \<open>P\<close>.\<close>

lemma run_then_other:
  "list_all P ds \<Longrightarrow> \<not> P x \<Longrightarrow> takeWhile P (ds @ x # r) = ds \<and> dropWhile P (ds @ x # r) = x # r"
  by (induction ds) auto

lemma run_then_end:
  "list_all P ds \<Longrightarrow> takeWhile P ds = ds \<and> dropWhile P ds = []"
  by (induction ds) auto

lemma re_match_cls_iff:
  "re_match (RCls Q) t \<longleftrightarrow> (\<exists>c cs. t = c # cs \<and> Q c)"
  by (auto simp: re_match_iff)

lemma re_match_cls_seq_iff:
  "re_match (RSeq (RCls Q) R) t \<longleftrightarrow> (\<exists>c cs. t = c # cs \<and> Q c \<and> re_match R cs)"
proof -
  have "matches (RSeq (RCls Q) R) p \<longleftrightarrow> (\<exists>c v. p = c # v \<and> Q c \<and> matches R v)" for p
  proof
    assume "\<exists>c v. p = c # v \<and> Q c \<and> matches R v"
    then obtain c v where "p = [c] @ v" "matches (RCls Q) [c]" "matches R v" by auto
    then show "matches (RSeq (RCls Q) R) p" unfolding matches_seq_iff by blast
  qed (auto simp: matches_seq_iff)
  then show ?thesis
    by (simp add: re_match_iff) (metis append_Cons)
qed

lemma re_match_assoc:
  "re_match (RSeq (RSeq a b) c) t \<longleftrightarrow> re_match (RSeq a (RSeq b c)) t"
proof -
  have "matches (RSeq (RSeq a b) c) p \<longleftrightarrow> matches (RSeq a (RSeq b c)) p" for p
    by (simp add: matches_seq_iff) (metis append.assoc)
  then show ?thesis by (simp add: re_match_iff)
qed

text \<open>
  A greedy run \<^verbatim>\<open>[P]+\<close> followed by a pattern that cannot start with a \<open>P\<close>: the run
  takes every \<open>P\<close> there is, and backtracking into it cannot help.
\<close>

lemma re_match_run_iff:
  assumes "\<And>s. re_match R s \<Longrightarrow> s \<noteq> [] \<and> \<not> P (hd s)"
  shows "re_match (RSeq (rplus (RCls P)) R) t \<longleftrightarrow>
           takeWhile P t \<noteq> [] \<and> re_match R (dropWhile P t)"
proof
  assume "re_match (RSeq (rplus (RCls P)) R) t"
  then obtain u v q where t: "t = (u @ v) @ q" and u: "u \<noteq> []" "list_all P u" and v: "matches R v"
    by (auto simp: re_match_iff matches_seq_iff)
  from v have R: "re_match R (v @ q)" by (auto simp: re_match_iff)
  with assms obtain x r where x: "v @ q = x # r" "\<not> P x"
    by (cases "v @ q") fastforce+
  from run_then_other[OF u(2) x(2), of r] t x(1)
  have "takeWhile P t = u" "dropWhile P t = v @ q" by simp_all
  with u R show "takeWhile P t \<noteq> [] \<and> re_match R (dropWhile P t)" by simp
next
  assume a: "takeWhile P t \<noteq> [] \<and> re_match R (dropWhile P t)"
  then obtain p q where pq: "matches R p" "dropWhile P t = p @ q"
    by (auto simp: re_match_iff)
  have "list_all P (takeWhile P t)" by (simp add: list_all_iff) (meson set_takeWhileD)
  with a have "matches (rplus (RCls P)) (takeWhile P t)" by simp
  with pq(1) have "matches (RSeq (rplus (RCls P)) R) (takeWhile P t @ p)"
    by (auto simp: matches_seq_iff)
  moreover have "t = (takeWhile P t @ p) @ q" using pq(2) by (metis append.assoc takeWhile_dropWhile_id)
  ultimately show "re_match (RSeq (rplus (RCls P)) R) t" unfolding re_match_iff by blast
qed

lemma re_match_run_first:
  "re_match (RSeq (rplus (RCls P)) R) t \<Longrightarrow> t \<noteq> [] \<and> P (hd t)"
proof -
  assume "re_match (RSeq (rplus (RCls P)) R) t"
  then obtain u v q where "t = (u @ v) @ q" "u \<noteq> []" "list_all P u"
    by (auto simp: re_match_iff matches_seq_iff)
  then show ?thesis by (cases u) auto
qed

lemma re_match_seq_prefix:
  "re_match (RSeq r1 (RSeq r2 r3)) t \<Longrightarrow> re_match (RSeq r1 r2) t"
  by (auto simp: re_match_iff matches_seq_iff) (metis append.assoc)

section \<open>Facts about the character classes\<close>

lemma is_space_points:
  "is_space c \<longleftrightarrow> c \<in> set [0x09, 0x0A, 0x0B, 0x0C, 0x0D, 0x1C, 0x1D, 0x1E, 0x1F, 0x20, 0x85, 0xA0, 0x1680,
     0x2000, 0x2001, 0x2002, 0x2003, 0x2004, 0x2005, 0x2006, 0x2007, 0x2008, 0x2009, 0x200A,
     0x2028, 0x2029, 0x202F, 0x205F, 0x3000]"
  unfolding is_space_def by simp arith

lemma space_points_not_decimal:
  "list_all (\<lambda>c. \<not> is_decimal c) [0x09, 0x0A, 0x0B, 0x0C, 0x0D, 0x1C, 0x1D, 0x1E, 0x1F, 0x20, 0x85, 0xA0, 0x1680,
     0x2000, 0x2001, 0x2002, 0x2003, 0x2004, 0x2005, 0x2006, 0x2007, 0x2008, 0x2009, 0x200A,
     0x2028, 0x2029, 0x202F, 0x205F, 0x3000]"
  by code_simp

lemma decimal_not_space: "is_decimal c \<Longrightarrow> \<not> is_space c"
  using space_points_not_decimal unfolding is_space_points list_all_iff by blast

lemma dot_not_decimal: "\<not> is_decimal 0x2E"
  by code_simp

lemma numeral_facts:
  "is_numeral c \<Longrightarrow> \<not> is_space c"
  "is_numeral c \<Longrightarrow> \<not> is_separator c"
  "is_numeral c \<Longrightarrow> c \<noteq> 0x2E"
  "is_separator c \<Longrightarrow> \<not> is_space c"
  "is_space c \<Longrightarrow> c \<noteq> 0x2E"
  by (auto simp: is_numeral_def is_space_def is_separator_def)

section \<open>The structural patterns of \<^verbatim>\<open>process_pdfs.py\<close>\<close>

lemma run_unique:
  assumes "list_all P a" "list_all P b" "\<not> P x" "\<not> P y" "a @ x # r = b @ y # r'"
  shows "a = b \<and> x = y \<and> r = r'"
proof -
  have "takeWhile P (a @ x # r) = a" "dropWhile P (a @ x # r) = x # r"
    using run_then_other[OF assms(1,3)] by simp_all
  moreover have "takeWhile P (b @ y # r') = b" "dropWhile P (b @ y # r') = y # r'"
    using run_then_other[OF assms(2,4)] by simp_all
  ultimately show ?thesis using assms(5) by simp
qed

lemma re_match_cls_seq_first:
  "re_match (RSeq (RCls Q) R) s \<Longrightarrow> s \<noteq> [] \<and> Q (hd s)"
  by (auto simp: re_match_cls_seq_iff)

lemma re_match_cls_first:
  "re_match (RCls Q) s \<Longrightarrow> s \<noteq> [] \<and> Q (hd s)"
  by (auto simp: re_match_cls_iff)

lemma num_space_iff:
  "re_match (RSeq rnum rspace) t \<longleftrightarrow>
     takeWhile is_numeral t \<noteq> [] \<and> (\<exists>w r. dropWhile is_numeral t = w # r \<and> is_space w)"
proof -
  have "re_match rspace s \<Longrightarrow> s \<noteq> [] \<and> \<not> is_numeral (hd s)" for s
    using re_match_cls_first[of is_space s] numeral_facts(1) by (auto simp: rspace_def)
  from re_match_run_iff[of rspace is_numeral t, OF this]
  show ?thesis by (simp add: rnum_def rspace_def re_match_cls_iff)
qed

lemma pattern_H1_iff:
  "re_match pattern_H1 t \<longleftrightarrow>
     takeWhile is_numeral t \<noteq> [] \<and>
     (\<exists>c w r. dropWhile is_numeral t = c # w # r \<and> is_separator c \<and> is_space w)"
proof -
  have "re_match (RSeq (RCls is_separator) rspace) s \<Longrightarrow> s \<noteq> [] \<and> \<not> is_numeral (hd s)" for s
    using re_match_cls_seq_first[of is_separator rspace s] numeral_facts(2) by auto
  from re_match_run_iff[of "RSeq (RCls is_separator) rspace" is_numeral t, OF this]
  show ?thesis
    by (simp add: pattern_H1_def rnum_def rspace_def re_match_cls_seq_iff re_match_cls_iff) blast
qed

lemma dot_then_iff:
  "re_match (RSeq (RSeq rnum (RSeq (rchr 0x2E) X)) Y) t \<longleftrightarrow>
     takeWhile is_numeral t \<noteq> [] \<and>
     (\<exists>cs. dropWhile is_numeral t = 0x2E # cs \<and> re_match (RSeq X Y) cs)"
proof -
  let ?R = "RSeq (RSeq (rchr 0x2E) X) Y"
  have R: "re_match ?R s \<longleftrightarrow> (\<exists>cs. s = 0x2E # cs \<and> re_match (RSeq X Y) cs)" for s
    by (simp add: re_match_assoc rchr_def re_match_cls_seq_iff)
  have "\<not> is_numeral 0x2E" by (simp add: is_numeral_def)
  then have "re_match ?R s \<Longrightarrow> s \<noteq> [] \<and> \<not> is_numeral (hd s)" for s
    by (auto simp: R)
  from re_match_run_iff[of ?R is_numeral t, OF this]
  have "re_match (RSeq rnum ?R) t \<longleftrightarrow>
     takeWhile is_numeral t \<noteq> [] \<and> (\<exists>cs. dropWhile is_numeral t = 0x2E # cs \<and> re_match (RSeq X Y) cs)"
    by (simp add: rnum_def R)
  moreover have "re_match (RSeq (RSeq rnum (RSeq (rchr 0x2E) X)) Y) t \<longleftrightarrow> re_match (RSeq rnum ?R) t"
  proof -
    have "matches (RSeq (RSeq rnum (RSeq (rchr 0x2E) X)) Y) p \<longleftrightarrow> matches (RSeq rnum ?R) p" for p
      by (simp add: matches_seq_iff) (metis append.assoc)
    then show ?thesis by (simp add: re_match_iff)
  qed
  ultimately show ?thesis by simp
qed

lemma pattern_H2_iff:
  "re_match pattern_H2 t \<longleftrightarrow>
     takeWhile is_numeral t \<noteq> [] \<and>
     (\<exists>cs. dropWhile is_numeral t = 0x2E # cs \<and> re_match (RSeq rnum rspace) cs)"
  unfolding pattern_H2_def by (rule dot_then_iff)

lemma pattern_H3_iff:
  "re_match pattern_H3 t \<longleftrightarrow>
     takeWhile is_numeral t \<noteq> [] \<and>
     (\<exists>cs. dropWhile is_numeral t = 0x2E # cs \<and> re_match pattern_H2 cs)"
  unfolding pattern_H3_def pattern_H2_def by (rule dot_then_iff)

lemma run_take [simp]: "list_all P ds \<Longrightarrow> \<not> P x \<Longrightarrow> takeWhile P (ds @ x # r) = ds"
  by (simp add: run_then_other)

lemma run_drop [simp]: "list_all P ds \<Longrightarrow> \<not> P x \<Longrightarrow> dropWhile P (ds @ x # r) = x # r"
  by (simp add: run_then_other)

lemma dot_not_numeral [simp]: "\<not> is_numeral 0x2E"
  by (simp add: is_numeral_def)

lemma form_H1:
  assumes "ds \<noteq> []" "list_all is_numeral ds" "is_separator c" "is_space w"
  shows "re_match pattern_H1 (ds @ c # w # r)"
proof -
  from assms(3) have "\<not> is_numeral c" using numeral_facts(2) by blast
  with assms show ?thesis by (simp add: pattern_H1_iff)
qed

lemma form_num_space:
  assumes "ds \<noteq> []" "list_all is_numeral ds" "is_space w"
  shows "re_match (RSeq rnum rspace) (ds @ w # r)"
proof -
  from assms(3) have "\<not> is_numeral w" using numeral_facts(1) by blast
  with assms show ?thesis by (simp add: num_space_iff)
qed

lemma form_not_num_space:
  assumes "list_all is_numeral ds"
  shows "\<not> re_match (RSeq rnum rspace) (ds @ 0x2E # r)"
proof -
  have "\<not> is_space 0x2E" by (simp add: is_space_def)
  with assms show ?thesis by (simp add: num_space_iff)
qed

lemma form_H2:
  assumes "ds1 \<noteq> []" "list_all is_numeral ds1" "ds2 \<noteq> []" "list_all is_numeral ds2" "is_space w"
  shows "re_match pattern_H2 (ds1 @ 0x2E # ds2 @ w # r)"
  using assms form_num_space[of ds2 w r] by (simp add: pattern_H2_iff)

lemma form_H3:
  assumes "ds1 \<noteq> []" "list_all is_numeral ds1" "ds2 \<noteq> []" "list_all is_numeral ds2"
    "ds3 \<noteq> []" "list_all is_numeral ds3" "is_space w"
  shows "re_match pattern_H3 (ds1 @ 0x2E # ds2 @ 0x2E # ds3 @ w # r)"
  using assms form_H2[of ds2 ds3 w r] by (simp add: pattern_H3_iff)

text \<open>A second segment after the first dot rules out the H1 pattern.\<close>

lemma form_not_H1:
  assumes "list_all is_numeral ds1" "ds2 \<noteq> []" "list_all is_numeral ds2"
  shows "\<not> re_match pattern_H1 (ds1 @ 0x2E # ds2 @ r)"
proof -
  from assms(2,3) obtain d ds2' where d: "ds2 = d # ds2'" "is_numeral d" by (cases ds2) auto
  then have "\<not> is_space d" by (simp add: numeral_facts(1))
  with assms(1) d show ?thesis by (simp add: pattern_H1_iff)
qed

text \<open>A third segment after the second dot rules out the H2 pattern, a fourth the H3 pattern.\<close>

lemma form_not_H2:
  assumes "list_all is_numeral ds1" "list_all is_numeral ds2"
  shows "\<not> re_match pattern_H2 (ds1 @ 0x2E # ds2 @ 0x2E # r)"
  using assms form_not_num_space[of ds2 r] by (simp add: pattern_H2_iff)

lemma form_not_H3:
  assumes "list_all is_numeral ds1" "list_all is_numeral ds2" "list_all is_numeral ds3"
  shows "\<not> re_match pattern_H3 (ds1 @ 0x2E # ds2 @ 0x2E # ds3 @ 0x2E # r)"
  using assms form_not_H2[of ds2 ds3 r] by (simp add: pattern_H3_iff)

lemma match_structure_patterns:
  "match_structure structural_patterns line lm =
     (if \<bar>fsub (bbox0 line) (of_int lm)\<bar> < 15 then
        (if re_match pattern_H1 (text line) then Some H1
         else if re_match pattern_H2 (text line) then Some H2
         else if re_match pattern_H3 (text line) then Some H3 else None)
      else None)"
  by (simp add: structural_patterns_def)

section \<open>The structure rule of \<^verbatim>\<open>outline_extractor.py\<close>\<close>

lemma matches_star_all:
  "matches r' w \<Longrightarrow> r' = RStar r \<Longrightarrow> (\<And>u. matches r u \<Longrightarrow> list_all Q u) \<Longrightarrow> list_all Q w"
  by (induction r' w rule: matches.induct) auto

lemma decimal_all_dotted: "list_all is_decimal ds \<Longrightarrow> list_all dotted ds"
  by (induction ds) (auto simp: dotted_def)

lemma numbered_group_chars:
  assumes "matches numbered_group p"
  shows "list_all dotted p"
proof -
  from assms obtain u v where p: "p = u @ v" and u: "list_all is_decimal u"
    and v: "matches (RStar (RSeq (rchr 0x2E) (rplus rdigit))) v"
    by (auto simp: numbered_group_def rdigit_def matches_seq_iff)
  have "list_all dotted x" if "matches (RSeq (rchr 0x2E) (rplus rdigit)) x" for x
    using that by (auto simp: matches_seq_iff rdigit_def dotted_def intro: decimal_all_dotted)
  from matches_star_all[OF v refl this] have "list_all dotted v" .
  with p u show ?thesis by (simp add: decimal_all_dotted)
qed

lemma segments_match_star:
  assumes "list_all decimal_run dss"
  shows "matches (RStar (RSeq (rchr 0x2E) (rplus rdigit))) (concat (map ((#) 0x2E) dss))"
  using assms
proof (induction dss)
  case Nil
  show ?case by (simp add: m_star0)
next
  case (Cons ds dss)
  then have "matches (RSeq (rchr 0x2E) (rplus rdigit)) ([0x2E] @ ds)"
    unfolding matches_seq_iff by (auto simp: rdigit_def decimal_run_def)
  moreover have "matches (RStar (RSeq (rchr 0x2E) (rplus rdigit))) (concat (map ((#) 0x2E) dss))"
    using Cons by simp
  ultimately have "matches (RStar (RSeq (rchr 0x2E) (rplus rdigit)))
      (([0x2E] @ ds) @ concat (map ((#) 0x2E) dss))"
    by (intro m_star) simp_all
  then show ?case by simp
qed

lemma segments_match_group:
  assumes "decimal_run ds1" "list_all decimal_run dss"
  shows "matches numbered_group (ds1 @ concat (map ((#) 0x2E) dss))"
  unfolding numbered_group_def matches_seq_iff
  using assms(1) segments_match_star[OF assms(2)] by (auto simp: rdigit_def decimal_run_def)

lemma count_dots_decimal: "list_all is_decimal ds \<Longrightarrow> count_list ds 0x2E = 0"
  using dot_not_decimal by (induction ds) auto

lemma count_dots_segments:
  "list_all decimal_run dss \<Longrightarrow>
   count_list (concat (map ((#) 0x2E) dss)) 0x2E = length dss"
  by (induction dss) (auto simp: count_dots_decimal decimal_run_def)

lemma count_list_app: "count_list (xs @ ys) a = count_list xs a + count_list ys a"
  by (induction xs) auto

lemma numbered_tail_first: "re_match numbered_tail q \<Longrightarrow> q \<noteq> [] \<and> is_space (hd q)"
  unfolding numbered_tail_def rspace_def by (rule re_match_run_first)

lemma numbered_tail_form:
  assumes "is_space w" "r \<noteq> []" "hd r \<noteq> 0x0A"
  shows "re_match numbered_tail (w # r)"
proof -
  from assms obtain c r' where r: "r = c # r'" "c \<noteq> 0x0A" by (cases r) auto
  have "matches (rplus rspace) [w]" "matches (rplus rany) [c]"
    using assms(1) r(2) by (simp_all add: rspace_def rany_def)
  then have "matches numbered_tail ([w] @ [c])"
    unfolding numbered_tail_def by (rule m_seq)
  then show ?thesis unfolding re_match_iff using r(1) by fastforce
qed

lemma match_group1_numbered:
  assumes g: "matches numbered_group g" and tail: "re_match numbered_tail q"
  shows "match_group1 numbered_group numbered_tail (g @ q) = Some g"
proof -
  let ?t = "g @ q"
  from numbered_tail_first[OF tail] obtain w r where q: "q = w # r" "is_space w"
    by (cases q) auto
  have ndw: "\<not> dotted w" using q(2) decimal_not_space numeral_facts(5) by (auto simp: dotted_def)
  have mem: "q \<in> set (rests numbered_group ?t)" using g by (rule rests_complete)
  have uniq: "q' = q" if "q' \<in> set (rests numbered_group ?t)" "re_match numbered_tail q'" for q'
  proof -
    from rests_sound[OF that(1)] obtain p where p: "matches numbered_group p" "?t = p @ q'" by blast
    from numbered_tail_first[OF that(2)] obtain w' r' where q': "q' = w' # r'" "is_space w'"
      by (cases q') auto
    have "\<not> dotted w'" using q'(2) decimal_not_space numeral_facts(5) by (auto simp: dotted_def)
    from run_unique[OF numbered_group_chars[OF p(1)] numbered_group_chars[OF g] this ndw, of r' r]
    show ?thesis using p(2) q q' by simp
  qed
  let ?f = "filter (re_match numbered_tail) (rests numbered_group ?t)"
  from mem tail have "q \<in> set ?f" by simp
  moreover have "\<forall>x\<in>set ?f. x = q" using uniq by auto
  ultimately obtain rest where "?f = q # rest" by (cases ?f) auto
  then show ?thesis by (simp add: match_group1_def)
qed

lemma numbered_level_segments:
  assumes "decimal_run ds1" "list_all decimal_run dss"
    "is_space w" "r \<noteq> []" "hd r \<noteq> 0x0A"
  shows "numbered_level (ds1 @ concat (map ((#) 0x2E) dss) @ w # r) =
           (if length dss + 1 \<le> 3 then Some (level_tag (length dss + 1)) else None)"
proof -
  let ?g = "ds1 @ concat (map ((#) 0x2E) dss)"
  have "match_group1 numbered_group numbered_tail (?g @ w # r) = Some ?g"
    using segments_match_group[OF assms(1,2)] numbered_tail_form[OF assms(3-5)]
    by (rule match_group1_numbered)
  moreover have "count_list ?g 0x2E = length dss"
    using assms(1,2)
    by (simp add: count_list_app count_dots_decimal count_dots_segments decimal_run_def)
  ultimately show ?thesis by (simp add: numbered_level_def Let_def)
qed

section \<open>Whitespace cleanup\<close>

lemma strip_prefix: "dropWhile is_space s = strip s @ rev (takeWhile is_space (rev (dropWhile is_space s)))"
proof -
  let ?y = "dropWhile is_space s"
  have "rev (takeWhile is_space (rev ?y) @ dropWhile is_space (rev ?y)) = ?y"
    by (simp only: takeWhile_dropWhile_id rev_rev_ident)
  then have "rev (dropWhile is_space (rev ?y)) @ rev (takeWhile is_space (rev ?y)) = ?y"
    by (simp only: rev_append)
  then show ?thesis by (simp only: strip_def)
qed

lemma strip_ends: "strip s = [] \<or> (\<not> is_space (hd (strip s)) \<and> \<not> is_space (last (strip s)))"
proof (cases "strip s = []")
  case False
  let ?y = "dropWhile is_space s"
  have y: "?y \<noteq> []"
  proof
    assume "?y = []"
    then have "strip s = []" by (simp only: strip_def rev.simps dropWhile.simps)
    with False show False by simp
  qed
  have "hd (strip s) = hd ?y" using False strip_prefix[of s] by (metis hd_append2)
  moreover have "\<not> is_space (hd ?y)" using y by (rule hd_dropWhile)
  moreover have "last (strip s) = hd (dropWhile is_space (rev ?y))"
    using False by (simp add: strip_def last_rev)
  moreover have "\<not> is_space (hd (dropWhile is_space (rev ?y)))"
  proof (rule hd_dropWhile)
    show "dropWhile is_space (rev ?y) \<noteq> []"
      using False by (metis rev.simps(1) strip_def)
  qed
  ultimately show ?thesis by simp
qed simp

lemma single_spaced_tail: "single_spaced (a # r) \<Longrightarrow> single_spaced r"
  by (cases r) auto

lemma single_spaced_dropWhile: "single_spaced s \<Longrightarrow> single_spaced (dropWhile P s)"
  by (induction s) (auto dest: single_spaced_tail)

lemma single_spaced_prefix: "single_spaced (xs @ ys) \<Longrightarrow> single_spaced xs"
proof (induction xs rule: single_spaced.induct)
  case (1 a b r)
  then show ?case by auto
next
  case (2 a)
  then show ?case by (cases ys) auto
next
  case 3
  show ?case by simp
qed

lemma single_spaced_strip: "single_spaced s \<Longrightarrow> single_spaced (strip s)"
proof -
  assume "single_spaced s"
  then have "single_spaced (dropWhile is_space s)" by (rule single_spaced_dropWhile)
  then show ?thesis using strip_prefix[of s] single_spaced_prefix by metis
qed

lemma sub_ws_head: "sub_ws s = [] \<or> (if s \<noteq> [] \<and> is_space (hd s) then hd (sub_ws s) = 0x20 else hd (sub_ws s) = hd s)"
  by (cases s) auto

lemma single_spaced_sub_ws: "single_spaced (sub_ws s)"
proof (induction s rule: sub_ws.induct)
  case 1
  show ?case by simp
next
  case (2 c cs)
  show ?case
  proof (cases "is_space c")
    case True
    let ?r = "dropWhile is_space cs"
    from True 2 have ih: "single_spaced (sub_ws ?r)" by simp
    have "sub_ws ?r = [] \<or> \<not> is_space (hd (sub_ws ?r))"
    proof (cases "?r = []")
      case False
      then have ns: "\<not> is_space (hd ?r)" by (rule hd_dropWhile)
      with False sub_ws_head[of ?r] show ?thesis by auto
    next
      case True
      show ?thesis unfolding True by simp
    qed
    with ih True show ?thesis by (cases "sub_ws ?r") auto
  next
    case False
    with 2 have "single_spaced (sub_ws cs)" by simp
    with False show ?thesis by (cases "sub_ws cs") auto
  qed
qed

lemma cleanup_normal:
  "single_spaced (strip (sub_ws t))
   \<and> (strip (sub_ws t) = [] \<or>
        (\<not> is_space (hd (strip (sub_ws t))) \<and> \<not> is_space (last (strip (sub_ws t)))))"
  using single_spaced_strip[OF single_spaced_sub_ws] strip_ends by blast

lemma finalize_outline_text:
  assumes "e \<in> set (finalize_outline lw hs prof)"
  shows "\<exists>m\<in>set (merge_loop (sort_key (\<lambda>h. (page h, bbox1 h)) hs)).
           entry_text e = strip (sub_ws (text m)) @ [0x20]"
proof -
  from assms have "e \<in> set (dedup_loop lw (page_offset prof) {}
      (merge_loop (sort_key (\<lambda>h. (page h, bbox1 h)) hs)))"
    by (simp add: finalize_outline_def split: if_splits)
  from dedup_loop_source[OF this] show ?thesis by auto
qed

lemma finalize_outline_oe_text:
  assumes "e \<in> set (finalize_outline_oe lw hs prof)"
  shows "\<exists>m\<in>set (merge_loop_oe (sort_key (\<lambda>h. (page h, bbox1 h)) hs)).
           entry_text e = strip (sub_ws (text m)) @ [0x20]"
proof -
  from assms have "e \<in> set (dedup_loop lw (page_offset prof) {}
      (merge_loop_oe (sort_key (\<lambda>h. (page h, bbox1 h)) hs)))"
    by (simp add: finalize_outline_oe_def split: if_splits)
  from dedup_loop_source[OF this] show ?thesis by auto
qed

lemma two_spaces: "ustr ''  '' = [0x20, 0x20]"
  by (simp add: ustr_def)

section \<open>The empty document\<close>

text \<open>
  Claim C2 (empty input), as the code has it. For an empty list of logical lines both
  pipelines return the title of two spaces and the empty outline, whatever the page
  count: every stage returns its default (the default profile, the empty title, no
  heading, the empty outline), and the orchestrator appends two spaces to the trimmed
  title. The record with the empty title is returned only from the exception handler.
\<close>

theorem empty_input_result:
  "process_single_pdf lw (Inr ([], pc)) = \<lparr>title = [0x20, 0x20], outline = []\<rparr>
   \<and> process_single_pdf_oe lw (Inr ([], pc)) = \<lparr>title = [0x20, 0x20], outline = []\<rparr>
   \<and> build_profile [] pc =
       \<lparr>baseline_font_size = 10, page_offset = (if pc > 1 then 1 else 0), left_margin = 72\<rparr>
   \<and> build_profile_oe [] = \<lparr>baseline_font_size = 12, page_offset = 1\<rparr>
   \<and> extract_title [] = [] \<and> extract_title_oe [] = []
   \<and> find_headings [] prof = [] \<and> find_headings_oe lw [] prof' = []
   \<and> finalize_outline lw [] prof = [] \<and> finalize_outline_oe lw [] prof' = []
   \<and> process_single_pdf lw (Inl e) = \<lparr>title = [], outline = []\<rparr>
   \<and> process_single_pdf_oe lw (Inl e) = \<lparr>title = [], outline = []\<rparr>"
  by (simp add: process_single_pdf_def process_single_pdf_oe_def build_profile_def
      build_profile_oe_def most_common1_def first_seen_def extract_title_def extract_title_oe_def
      find_headings_def find_headings_oe_def List.map_filter_simps finalize_outline_def
      finalize_outline_oe_def strip_def two_spaces)

text \<open>The claim as written asks for the empty title; the title is two spaces.\<close>

theorem empty_input_counterexample:
  "process_single_pdf lower_ascii (Inr ([], 1)) \<noteq> \<lparr>title = [], outline = []\<rparr>
   \<and> process_single_pdf_oe lower_ascii (Inr ([], 1)) \<noteq> \<lparr>title = [], outline = []\<rparr>"
  by (simp add: process_single_pdf_def process_single_pdf_oe_def two_spaces Let_def)

section \<open>Text cleanup\<close>

text \<open>
  Claim C3 (text cleanup), as the code has it. The text of every outline entry is the
  text of a heading of the merge pass with its whitespace runs collapsed to one space
  and trimmed, then one space: the cleaned text has no whitespace at either end and only
  single spaces inside, so the entry ends in exactly one space. The returned title is
  the extracted title, trimmed, then two spaces; the trimmed title does not end in
  whitespace, so the title ends in exactly two spaces.
\<close>

theorem text_cleanup_convention:
  "(\<forall>e\<in>set (finalize_outline lw hs prof).
      \<exists>m\<in>set (merge_loop (sort_key (\<lambda>h. (page h, bbox1 h)) hs)).
        entry_text e = strip (sub_ws (text m)) @ [0x20])
   \<and> (\<forall>e\<in>set (finalize_outline_oe lw hs prof').
      \<exists>m\<in>set (merge_loop_oe (sort_key (\<lambda>h. (page h, bbox1 h)) hs)).
        entry_text e = strip (sub_ws (text m)) @ [0x20])
   \<and> single_spaced (strip (sub_ws t))
   \<and> (strip (sub_ws t) = [] \<or>
        (\<not> is_space (hd (strip (sub_ws t))) \<and> \<not> is_space (last (strip (sub_ws t)))))
   \<and> title (process_single_pdf lw (Inr (ls, pc))) = strip (extract_title ls) @ [0x20, 0x20]
   \<and> title (process_single_pdf_oe lw (Inr (ls, pc))) = strip (extract_title_oe ls) @ [0x20, 0x20]
   \<and> (strip u = [] \<or> \<not> is_space (last (strip u)))"
proof -
  have titles: "title (process_single_pdf lw (Inr (ls, pc))) = strip (extract_title ls) @ [0x20, 0x20]"
    "title (process_single_pdf_oe lw (Inr (ls, pc))) = strip (extract_title_oe ls) @ [0x20, 0x20]"
    by (simp_all add: process_single_pdf_def process_single_pdf_oe_def Let_def two_spaces)
  from finalize_outline_text[of _ lw hs prof] finalize_outline_oe_text[of _ lw hs prof']
    cleanup_normal[of t] strip_ends[of u] titles
  show ?thesis by blast
qed

theorem text_cleanup_witness:
  "\<lparr>entry_level = H1, entry_text = ustr ''3. Overview '', entry_page = 1\<rparr>
      \<in> set (finalize_outline lower_ascii [heading_at ''3.   Overview  '' H1 0 100]
               \<lparr>baseline_font_size = 10, page_offset = 0\<rparr>)
   \<and> (\<exists>m\<in>set (merge_loop (sort_key (\<lambda>h. (page h, bbox1 h)) [heading_at ''3.   Overview  '' H1 0 100])).
        ustr ''3. Overview '' = strip (sub_ws (text m)) @ [0x20])
   \<and> title (process_single_pdf lower_ascii (Inr ([line_at '' Annual Report'' 24 True 0 72 10], 1)))
        = ustr ''Annual Report  ''"
proof -
  let ?hs = "[heading_at ''3.   Overview  '' H1 0 100]"
  let ?P = "\<lparr>baseline_font_size = 10, page_offset = 0\<rparr>"
  let ?e = "\<lparr>entry_level = H1, entry_text = ustr ''3. Overview '', entry_page = 1\<rparr>"
  note law = text_cleanup_convention[of lower_ascii ?hs ?P ?P "[]"
      "[line_at '' Annual Report'' 24 True 0 72 10]" 1 "[]"]
  have mem: "?e \<in> set (finalize_outline lower_ascii ?hs ?P)" by code_simp
  with law have "\<exists>m\<in>set (merge_loop (sort_key (\<lambda>h. (page h, bbox1 h)) ?hs)).
      entry_text ?e = strip (sub_ws (text m)) @ [0x20]" by blast
  then have src: "\<exists>m\<in>set (merge_loop (sort_key (\<lambda>h. (page h, bbox1 h)) ?hs)).
      ustr ''3. Overview '' = strip (sub_ws (text m)) @ [0x20]" by simp
  have "strip (extract_title [line_at '' Annual Report'' 24 True 0 72 10]) @ [0x20, 0x20]
      = ustr ''Annual Report  ''" by code_simp
  with law have "title (process_single_pdf lower_ascii
      (Inr ([line_at '' Annual Report'' 24 True 0 72 10], 1))) = ustr ''Annual Report  ''"
    by simp
  with mem src show ?thesis by blast
qed

text \<open>The claim as written gives the title one trailing space; it has two.\<close>

theorem title_two_spaces_counterexample:
  "title (process_single_pdf lower_ascii (Inr ([line_at ''Annual Report'' 24 True 0 72 10], 1)))
     = ustr ''Annual Report'' @ [0x20, 0x20]
   \<and> title (process_single_pdf_oe lower_ascii (Inr ([line_at ''Annual Report'' 24 True 0 72 10], 1)))
     = ustr ''Annual Report'' @ [0x20, 0x20]"
  by code_simp

section \<open>Pages are not always 1-based\<close>

lemma page_offset_build_profile:
  "page_offset (build_profile ls pc) =
     (if length (filter (\<lambda>line. page line = 0) ls) < 10 \<and> pc > 1 then 1 else 0)"
  by (simp add: build_profile_def Let_def)

text \<open>
  Claim C9 (1-based output pages), as the code has it. With headings of raw page index
  at least 0 and a profile of the profiler of \<^verbatim>\<open>process_pdfs.py\<close>, every entry of the
  outline has a page of at least 0; the page is at least 1 when \<open>page_offset\<close> is 0, and
  when every heading has a raw page index of at least 1.
\<close>

theorem entry_page_bounds:
  assumes "\<forall>h\<in>set hs. 0 \<le> page h"
    and "e \<in> set (finalize_outline lw hs (build_profile ls pc))"
  shows "0 \<le> entry_page e
    \<and> (page_offset (build_profile ls pc) = 0 \<longrightarrow> 1 \<le> entry_page e)
    \<and> ((\<forall>h\<in>set hs. 1 \<le> page h) \<longrightarrow> 1 \<le> entry_page e)"
proof -
  from finalize_outline_source[OF assms(2)] obtain h where h: "h \<in> set hs"
    and e: "entry_page e = page h + 1 - page_offset (build_profile ls pc)" by blast
  have off: "page_offset (build_profile ls pc) = 0 \<or> page_offset (build_profile ls pc) = 1"
    by (simp add: page_offset_build_profile)
  from assms(1) h have "0 \<le> page h" by blast
  with e off h show ?thesis by auto
qed

theorem entry_page_bounds_witness:
  "0 \<le> page (heading_at ''1. Scope'' H1 0 100)
   \<and> \<lparr>entry_level = H1, entry_text = ustr ''1. Scope '', entry_page = 1\<rparr>
       \<in> set (finalize_outline lower_ascii [heading_at ''1. Scope'' H1 0 100]
               (build_profile [line_at ''1. Scope'' 12 True 0 72 100] 1))
   \<and> page_offset (build_profile [line_at ''1. Scope'' 12 True 0 72 100] 1) = 0
   \<and> 1 \<le> page (heading_at ''2. Terms'' H1 1 100)
   \<and> \<lparr>entry_level = H1, entry_text = ustr ''2. Terms '', entry_page = 1\<rparr>
       \<in> set (finalize_outline lower_ascii [heading_at ''2. Terms'' H1 1 100]
               (build_profile [line_at ''Cover'' 30 True 0 72 100, line_at ''2. Terms'' 12 True 1 72 100] 2))
   \<and> (1::int) \<le> entry_page \<lparr>entry_level = H1, entry_text = ustr ''1. Scope '', entry_page = 1\<rparr>
   \<and> (1::int) \<le> entry_page \<lparr>entry_level = H1, entry_text = ustr ''2. Terms '', entry_page = 1\<rparr>"
proof -
  let ?e1 = "\<lparr>entry_level = H1, entry_text = ustr ''1. Scope '', entry_page = 1\<rparr>"
  let ?e2 = "\<lparr>entry_level = H1, entry_text = ustr ''2. Terms '', entry_page = 1\<rparr>"
  have p1: "\<forall>h\<in>set [heading_at ''1. Scope'' H1 0 100]. 0 \<le> page h" by simp
  have m1: "?e1 \<in> set (finalize_outline lower_ascii [heading_at ''1. Scope'' H1 0 100]
               (build_profile [line_at ''1. Scope'' 12 True 0 72 100] 1))" by code_simp
  have o1: "page_offset (build_profile [line_at ''1. Scope'' 12 True 0 72 100] 1) = 0" by code_simp
  have p2: "\<forall>h\<in>set [heading_at ''2. Terms'' H1 1 100]. 0 \<le> page h" by simp
  have m2: "?e2 \<in> set (finalize_outline lower_ascii [heading_at ''2. Terms'' H1 1 100]
               (build_profile [line_at ''Cover'' 30 True 0 72 100, line_at ''2. Terms'' 12 True 1 72 100] 2))"
    by code_simp
  from entry_page_bounds[OF p1 m1] o1 have b1: "1 \<le> entry_page ?e1" by blast
  from entry_page_bounds[OF p2 m2] have b2: "1 \<le> entry_page ?e2" by simp
  from m1 o1 m2 b1 b2 show ?thesis by simp
qed

text \<open>
  The claim as written fails: in a two-page document whose first page holds one line,
  the heading "1. Introduction", \<open>page_offset\<close> is 1 and the heading is reported on
  page 0.
\<close>

theorem cover_page_heading_counterexample:
  "map entry_page (outline (process_single_pdf lower_ascii
      (Inr ([line_at ''1. Introduction'' 16 True 0 72 100,
             line_at ''Body text of the first chapter.'' 10 False 1 72 100], 2)))) = [0]
   \<and> page_offset (build_profile [line_at ''1. Introduction'' 16 True 0 72 100,
             line_at ''Body text of the first chapter.'' 10 False 1 72 100] 2) = 1"
  by code_simp

section \<open>Keyword headings\<close>

lemma strip_split:
  "t = takeWhile is_space t @ strip t @ rev (takeWhile is_space (rev (dropWhile is_space t)))"
  using strip_prefix[of t] by (metis takeWhile_dropWhile_id)

lemma set_stripped: "x \<in> set t \<Longrightarrow> is_space x \<or> x \<in> set (strip t)"
proof -
  assume "x \<in> set t"
  then have "x \<in> set (takeWhile is_space t) \<or> x \<in> set (strip t)
      \<or> x \<in> set (takeWhile is_space (rev (dropWhile is_space t)))"
    using strip_split[of t] by (metis Un_iff set_append set_rev)
  then show ?thesis by (auto dest: set_takeWhileD)
qed

lemma hd_stripped:
  assumes "t \<noteq> []"
  shows "is_space (hd t) \<or> (strip t \<noteq> [] \<and> hd t = hd (strip t))"
proof (cases "is_space (hd t)")
  case False
  with assms have dw: "dropWhile is_space t = t" by (cases t) auto
  with strip_prefix[of t] have t: "t = strip t @ rev (takeWhile is_space (rev t))" by simp
  have "strip t \<noteq> []"
  proof
    assume e: "strip t = []"
    with t have "t = rev (takeWhile is_space (rev t))" by simp
    then have "hd t \<in> set (takeWhile is_space (rev t))" using assms by (metis hd_in_set set_rev)
    with False show False by (auto dest: set_takeWhileD)
  qed
  moreover from this t have "hd t = hd (strip t)" by (metis hd_append2)
  ultimately show ?thesis by simp
qed simp

lemma contains_set: "contains sub t \<Longrightarrow> set sub \<subseteq> set t"
proof (induction t)
  case Nil
  then show ?case by simp
next
  case (Cons c cs)
  show ?case
  proof (cases "is_prefix sub (c # cs)")
    case True
    then have "sub = take (length sub) (c # cs)" by (simp add: is_prefix_def)
    then show ?thesis by (metis set_take_subset)
  next
    case False
    with Cons show ?thesis by auto
  qed
qed

lemma special_h1s_chars:
  "list_all (\<lambda>k. k \<noteq> [] \<and> \<not> is_numeral (hd k) \<and> \<not> is_decimal (hd k) \<and> 0x2E \<notin> set k) special_h1s"
  by code_simp

lemma keyword_not_negative:
  assumes "strip t \<in> set special_h1s"
  shows "\<not> negative_filter t"
proof -
  from assms special_h1s_chars have k: "strip t \<noteq> []" "\<not> is_decimal (hd (strip t))"
    "0x2E \<notin> set (strip t)" by (auto simp: list_all_iff)
  from k(1) have t: "t \<noteq> []" by (auto simp: strip_def)
  have "\<not> contains (ustr ''....'') t"
  proof
    assume "contains (ustr ''....'') t"
    then have "0x2E \<in> set t" using contains_set by (fastforce simp: ustr_def)
    with set_stripped k(3) have "is_space 0x2E" by blast
    then show False by (simp add: is_space_def)
  qed
  moreover have "\<not> re_match table_row_pattern t"
  proof
    assume "re_match table_row_pattern t"
    then have "is_decimal (hd t)"
      unfolding table_row_pattern_def rdigit_def by (auto dest: re_match_cls_seq_first)
    with hd_stripped[OF t] k(2) decimal_not_space show False by auto
  qed
  ultimately show ?thesis by (simp add: negative_filter_def)
qed

lemma keyword_not_structural:
  assumes "strip (text line) \<in> set special_h1s"
  shows "match_structure structural_patterns line lm = None"
proof -
  let ?t = "text line"
  from assms special_h1s_chars have k: "strip ?t \<noteq> []" "\<not> is_numeral (hd (strip ?t))"
    by (auto simp: list_all_iff)
  from k(1) have t: "?t \<noteq> []" by (auto simp: strip_def)
  have no: "\<not> is_numeral (hd ?t)"
    using hd_stripped[OF t] k(2) numeral_facts(1) by auto
  have "takeWhile is_numeral ?t = []" using t no by (cases ?t) auto
  then show ?thesis
    by (simp add: match_structure_patterns pattern_H1_iff pattern_H2_iff pattern_H3_iff)
qed

text \<open>
  Claim C8 (keyword gating), as the code has it. In \<^verbatim>\<open>process_pdfs.py\<close> a line whose
  trimmed text is one of the keywords is never caught by rule 0 or rule 1, and rule 2
  classifies it H1 exactly when it is bold or larger than the baseline font size; so
  "References" at the baseline size and not bold is no heading. In
  \<^verbatim>\<open>outline_extractor.py\<close> every line whose trimmed text is one of the four English
  keywords becomes an H1 heading, whatever its style.
\<close>

theorem keyword_gating:
  "(strip (text line) \<in> set special_h1s \<longrightarrow>
      classify_line prof line =
        (if is_bold line \<or> font_size line > baseline_font_size prof
         then Some (with_level line H1) else None))
   \<and> (strip (text line) \<in> set strong_H1s \<and> line \<in> set lines \<longrightarrow>
        with_level line H1 \<in> set (find_headings_oe lw lines prof'))"
proof -
  have "classify_line prof line =
        (if is_bold line \<or> font_size line > baseline_font_size prof
         then Some (with_level line H1) else None)"
    if "strip (text line) \<in> set special_h1s"
    using that keyword_not_negative[OF that] keyword_not_structural[OF that]
    by (simp add: classify_line_def)
  moreover have "with_level line H1 \<in> set (find_headings_oe lw lines prof')"
    if "strip (text line) \<in> set strong_H1s" "line \<in> set lines"
    using that by (auto simp: find_headings_oe_def)
  ultimately show ?thesis by blast
qed

theorem keyword_gating_witness:
  "strip (text (line_at ''References'' 10 False 0 72 100)) \<in> set special_h1s
   \<and> classify_line \<lparr>baseline_font_size = 10, page_offset = 0, left_margin = 72\<rparr>
        (line_at ''References'' 10 False 0 72 100) = None
   \<and> classify_line \<lparr>baseline_font_size = 10, page_offset = 0, left_margin = 72\<rparr>
        (line_at ''References'' 10 True 0 72 100)
      = Some (with_level (line_at ''References'' 10 True 0 72 100) H1)
   \<and> classify_line \<lparr>baseline_font_size = 10, page_offset = 0, left_margin = 72\<rparr>
        (line_at ''References'' 14 False 0 72 100)
      = Some (with_level (line_at ''References'' 14 False 0 72 100) H1)
   \<and> strip (text (line_at ''References'' 10 False 0 72 100)) \<in> set strong_H1s
   \<and> with_level (line_at ''References'' 10 False 0 72 100) H1
       \<in> set (find_headings_oe lower_ascii [line_at ''References'' 10 False 0 72 100]
                \<lparr>baseline_font_size = 10, page_offset = 0\<rparr>)"
proof -
  let ?P = "\<lparr>baseline_font_size = 10, page_offset = 0, left_margin = 72\<rparr>"
  let ?Q = "\<lparr>baseline_font_size = 10, page_offset = 0\<rparr>"
  have k: "strip (ustr ''References'') \<in> set special_h1s"
    "strip (ustr ''References'') \<in> set strong_H1s" by code_simp+
  have a: "classify_line ?P (line_at ''References'' 10 False 0 72 100) = None"
    "with_level (line_at ''References'' 10 False 0 72 100) H1
       \<in> set (find_headings_oe lower_ascii [line_at ''References'' 10 False 0 72 100] ?Q)"
    using keyword_gating[of "line_at ''References'' 10 False 0 72 100" ?P
        "[line_at ''References'' 10 False 0 72 100]" lower_ascii ?Q] k by simp_all
  have b: "classify_line ?P (line_at ''References'' 10 True 0 72 100)
      = Some (with_level (line_at ''References'' 10 True 0 72 100) H1)"
    using keyword_gating[of "line_at ''References'' 10 True 0 72 100" ?P "[]" lower_ascii ?Q] k
    by simp
  have c: "classify_line ?P (line_at ''References'' 14 False 0 72 100)
      = Some (with_level (line_at ''References'' 14 False 0 72 100) H1)"
    using keyword_gating[of "line_at ''References'' 14 False 0 72 100" ?P "[]" lower_ascii ?Q] k
    by simp
  from a b c k show ?thesis by simp
qed

text \<open>
  The claim as written fails in \<^verbatim>\<open>outline_extractor.py\<close>: "References", not bold and at
  the baseline font size, is classified H1.
\<close>

theorem ungated_keyword_counterexample:
  "map level (find_headings_oe lower_ascii [line_at ''References'' 12 False 0 72 100]
      (build_profile_oe [line_at ''References'' 12 False 0 72 100])) = [H1]
   \<and> baseline_font_size (build_profile_oe [line_at ''References'' 12 False 0 72 100]) = 12"
  by code_simp

section \<open>Deduplication\<close>

lemma entry_key_entry_of [simp]: "entry_key lw (entry_of off m) = dedup_key lw off m"
  by (simp add: entry_key_def entry_of_def dedup_key_def)

lemma keep_first_by_keys: "x \<in> set (keep_first_by f xs) \<Longrightarrow> x \<in> set xs"
  by (induction f xs rule: keep_first_by.induct) auto

lemma keep_first_by_first:
  "x \<in> set xs \<Longrightarrow>
   filter (\<lambda>y. f y = f x) (keep_first_by f xs) = [hd (filter (\<lambda>y. f y = f x) xs)]"
proof (induction f xs rule: keep_first_by.induct)
  case (1 f)
  then show ?case by simp
next
  case (2 f a xs)
  show ?case
  proof (cases "f a = f x")
    case True
    have "filter (\<lambda>y. f y = f x) (keep_first_by f (filter (\<lambda>y. f y \<noteq> f a) xs)) = []"
      using True by (auto simp: filter_empty_conv dest: keep_first_by_keys)
    with True show ?thesis by simp
  next
    case False
    with "2.prems" have "x \<in> set (filter (\<lambda>y. f y \<noteq> f a) xs)" by auto
    from "2.IH"[OF this]
    have "filter (\<lambda>y. f y = f x) (keep_first_by f (filter (\<lambda>y. f y \<noteq> f a) xs))
        = [hd (filter (\<lambda>y. f y = f x) (filter (\<lambda>y. f y \<noteq> f a) xs))]" .
    moreover have "filter (\<lambda>y. f y = f x) (filter (\<lambda>y. f y \<noteq> f a) xs) = filter (\<lambda>y. f y = f x) xs"
      using False by (auto intro: filter_cong)
    ultimately show ?thesis using False by simp
  qed
qed

lemma keep_first_by_distinct: "distinct (map f (keep_first_by f xs))"
  by (induction f xs rule: keep_first_by.induct) (auto dest: keep_first_by_keys)

lemma dedup_loop_keep_first:
  "dedup_loop lw off seen ms =
     map (entry_of off) (keep_first_by (dedup_key lw off) (filter (\<lambda>m. dedup_key lw off m \<notin> seen) ms))"
proof (induction ms arbitrary: seen)
  case Nil
  show ?case by simp
next
  case (Cons m ms)
  have "filter (\<lambda>y. dedup_key lw off y \<noteq> dedup_key lw off m) (filter (\<lambda>x. dedup_key lw off x \<notin> seen) ms)
      = filter (\<lambda>x. dedup_key lw off x \<notin> insert (dedup_key lw off m) seen) ms"
    by (auto intro: filter_cong)
  with Cons[of "insert (dedup_key lw off m) seen"] Cons[of seen] show ?case
    by (simp add: Let_def dedup_key_def entry_of_def)
qed

lemma finalize_outline_keep_first:
  "finalize_outline lw hs prof =
     map (entry_of (page_offset prof))
       (keep_first_by (dedup_key lw (page_offset prof))
          (merge_loop (sort_key (\<lambda>h. (page h, bbox1 h)) hs)))"
  by (cases hs) (simp_all add: finalize_outline_def dedup_loop_keep_first)

lemma finalize_outline_oe_keep_first:
  "finalize_outline_oe lw hs prof =
     map (entry_of (page_offset prof))
       (keep_first_by (dedup_key lw (page_offset prof))
          (merge_loop_oe (sort_key (\<lambda>h. (page h, bbox1 h)) hs)))"
  by (cases hs) (simp_all add: finalize_outline_oe_def dedup_loop_keep_first)

lemma kept_entry:
  assumes "m \<in> set ms"
  shows "filter (\<lambda>e. entry_key lw e = dedup_key lw off m)
           (map (entry_of off) (keep_first_by (dedup_key lw off) ms))
         = [entry_of off (hd (filter (\<lambda>x. dedup_key lw off x = dedup_key lw off m) ms))]"
  using keep_first_by_first[OF assms, of "dedup_key lw off"]
  by (simp add: filter_map comp_def)

lemma kept_distinct:
  "distinct (map (entry_key lw) (map (entry_of off) (keep_first_by (dedup_key lw off) ms)))"
  using keep_first_by_distinct[of "dedup_key lw off" ms] by (simp add: comp_def)

text \<open>
  Claim C6 (dedup law), as the code has it. In both finalizers the outline is made of
  the headings that the merge pass leaves, in their sorted order, keeping the first
  heading of every key (lowercased clean text, final page) and dropping the later ones.
  So no two entries share a key, and for every heading \<open>m\<close> that the merge pass leaves
  there is exactly one entry with the key of \<open>m\<close>: the entry of the first heading with
  that key. A heading that the merge pass has absorbed into its predecessor has no entry
  of its own.
\<close>

theorem dedup_law:
  "finalize_outline lw hs prof =
     map (entry_of (page_offset prof))
       (keep_first_by (dedup_key lw (page_offset prof))
          (merge_loop (sort_key (\<lambda>h. (page h, bbox1 h)) hs)))
   \<and> finalize_outline_oe lw hs prof =
     map (entry_of (page_offset prof))
       (keep_first_by (dedup_key lw (page_offset prof))
          (merge_loop_oe (sort_key (\<lambda>h. (page h, bbox1 h)) hs)))
   \<and> distinct (map (entry_key lw) (finalize_outline lw hs prof))
   \<and> distinct (map (entry_key lw) (finalize_outline_oe lw hs prof))
   \<and> (\<forall>m\<in>set (merge_loop (sort_key (\<lambda>h. (page h, bbox1 h)) hs)).
        filter (\<lambda>e. entry_key lw e = dedup_key lw (page_offset prof) m) (finalize_outline lw hs prof)
        = [entry_of (page_offset prof)
             (hd (filter (\<lambda>x. dedup_key lw (page_offset prof) x = dedup_key lw (page_offset prof) m)
                    (merge_loop (sort_key (\<lambda>h. (page h, bbox1 h)) hs))))])
   \<and> (\<forall>m\<in>set (merge_loop_oe (sort_key (\<lambda>h. (page h, bbox1 h)) hs)).
        filter (\<lambda>e. entry_key lw e = dedup_key lw (page_offset prof) m) (finalize_outline_oe lw hs prof)
        = [entry_of (page_offset prof)
             (hd (filter (\<lambda>x. dedup_key lw (page_offset prof) x = dedup_key lw (page_offset prof) m)
                    (merge_loop_oe (sort_key (\<lambda>h. (page h, bbox1 h)) hs))))])"
  unfolding finalize_outline_keep_first finalize_outline_oe_keep_first
  using kept_entry kept_distinct by blast

theorem dedup_law_witness:
  "heading_at ''1.  scope'' H2 2 300
     \<in> set (merge_loop (sort_key (\<lambda>h. (page h, bbox1 h))
         [heading_at ''1. Scope'' H1 2 100, heading_at ''1.  scope'' H2 2 300,
          heading_at ''2. Terms'' H1 2 200]))
   \<and> filter (\<lambda>e. entry_key lower_ascii e = dedup_key lower_ascii 0 (heading_at ''1.  scope'' H2 2 300))
        (finalize_outline lower_ascii
          [heading_at ''1. Scope'' H1 2 100, heading_at ''1.  scope'' H2 2 300,
           heading_at ''2. Terms'' H1 2 200] \<lparr>baseline_font_size = 10, page_offset = 0\<rparr>)
      = [\<lparr>entry_level = H1, entry_text = ustr ''1. Scope '', entry_page = 3\<rparr>]
   \<and> finalize_outline lower_ascii
          [heading_at ''1. Scope'' H1 2 100, heading_at ''1.  scope'' H2 2 300,
           heading_at ''2. Terms'' H1 2 200] \<lparr>baseline_font_size = 10, page_offset = 0\<rparr>
      = [\<lparr>entry_level = H1, entry_text = ustr ''1. Scope '', entry_page = 3\<rparr>,
         \<lparr>entry_level = H1, entry_text = ustr ''2. Terms '', entry_page = 3\<rparr>]"
proof -
  let ?hs = "[heading_at ''1. Scope'' H1 2 100, heading_at ''1.  scope'' H2 2 300,
          heading_at ''2. Terms'' H1 2 200]"
  let ?P = "\<lparr>baseline_font_size = 10, page_offset = 0\<rparr>"
  let ?m = "heading_at ''1.  scope'' H2 2 300"
  let ?ms = "merge_loop (sort_key (\<lambda>h. (page h, bbox1 h)) ?hs)"
  have mem: "?m \<in> set ?ms" by code_simp
  have first: "entry_of 0 (hd (filter (\<lambda>x. dedup_key lower_ascii 0 x = dedup_key lower_ascii 0 ?m) ?ms))
      = \<lparr>entry_level = H1, entry_text = ustr ''1. Scope '', entry_page = 3\<rparr>" by code_simp
  have out: "finalize_outline lower_ascii ?hs ?P
      = [\<lparr>entry_level = H1, entry_text = ustr ''1. Scope '', entry_page = 3\<rparr>,
         \<lparr>entry_level = H1, entry_text = ustr ''2. Terms '', entry_page = 3\<rparr>]" by code_simp
  have off: "page_offset ?P = 0" by simp
  from dedup_law[of lower_ascii ?hs ?P, THEN conjunct2, THEN conjunct2, THEN conjunct2,
      THEN conjunct2, THEN conjunct1, THEN bspec, OF mem]
  have "filter (\<lambda>e. entry_key lower_ascii e = dedup_key lower_ascii (page_offset ?P) ?m)
          (finalize_outline lower_ascii ?hs ?P)
        = [entry_of (page_offset ?P)
             (hd (filter (\<lambda>x. dedup_key lower_ascii (page_offset ?P) x = dedup_key lower_ascii (page_offset ?P) ?m) ?ms))]" .
  then have kept: "filter (\<lambda>e. entry_key lower_ascii e = dedup_key lower_ascii 0 ?m)
          (finalize_outline lower_ascii ?hs ?P)
      = [\<lparr>entry_level = H1, entry_text = ustr ''1. Scope '', entry_page = 3\<rparr>]"
    unfolding off first .
  show ?thesis by (rule conjI[OF mem conjI[OF kept out]])
qed

text \<open>
  The claim as written speaks of any two headings given to the finalizer. It fails
  where the merge pass comes first: of four headings on one page, "1. Scope",
  "References", "2. Terms", "References", each "References" is absorbed by the numbered
  heading before it, and the two equal headings end in two different entries.
\<close>

theorem absorbed_duplicates_counterexample:
  "map entry_text (outline (process_single_pdf lower_ascii
      (Inr ([line_at ''1. Scope'' 12 True 0 72 100, line_at ''References'' 12 True 0 72 200,
             line_at ''2. Terms'' 12 True 0 72 300, line_at ''References'' 12 True 0 72 400], 1))))
     = [ustr ''1. Scope References '', ustr ''2. Terms References '']
   \<and> map text (find_headings
         [line_at ''1. Scope'' 12 True 0 72 100, line_at ''References'' 12 True 0 72 200,
          line_at ''2. Terms'' 12 True 0 72 300, line_at ''References'' 12 True 0 72 400]
         (build_profile
           [line_at ''1. Scope'' 12 True 0 72 100, line_at ''References'' 12 True 0 72 200,
            line_at ''2. Terms'' 12 True 0 72 300, line_at ''References'' 12 True 0 72 400] 1))
     = [ustr ''1. Scope'', ustr ''References'', ustr ''2. Terms'', ustr ''References'']"
  by code_simp

section \<open>The continuation merge\<close>

lemma h1_pattern_numbered: "re_match h1_pattern t \<Longrightarrow> re_match numbered_pattern t"
  unfolding h1_pattern_def numbered_pattern_def by (rule re_match_seq_prefix)

lemma stub_pattern_numbered_oe: "re_match stub_pattern_oe t \<Longrightarrow> re_match numbered_pattern_oe t"
  unfolding stub_pattern_oe_def numbered_pattern_oe_def by (rule re_match_seq_prefix)

lemma merge_loop_append:
  "re_match numbered_pattern (text a) \<Longrightarrow>
   merge_loop (pre @ a # rest) = merge_loop pre @ merge_loop (a # rest)"
proof (induction pre rule: merge_loop.induct)
  case 1
  show ?case by simp
next
  case (2 current)
  then show ?case by simp
next
  case (3 current nxt rest')
  then show ?case by simp
qed

lemma merge_loop_oe_append:
  "re_match numbered_pattern_oe (text a) \<Longrightarrow>
   merge_loop_oe (pre @ a # rest) = merge_loop_oe pre @ merge_loop_oe (a # rest)"
proof (induction pre rule: merge_loop_oe.induct)
  case 1
  show ?case by simp
next
  case (2 current)
  then show ?case by simp
next
  case (3 current nxt rest')
  then show ?case by simp
qed

text \<open>
  Claim C7 (continuation merge), as the code has it. Two consecutive headings of the
  sorted list, on the same page, are merged into the first and the second is dropped,
  wherever they stand in the list: in \<^verbatim>\<open>process_pdfs.py\<close> when the first starts with
  numerals and a separator and the second does not, and the new text is the two trimmed
  texts with one space between them; in \<^verbatim>\<open>outline_extractor.py\<close> when the first starts
  with one decimal digit, a full stop and a whitespace character and the second does not
  start with one digit and a full stop, and the new text is the first text (with " - "
  turned into an en dash between spaces) directly followed by the second, with nothing
  between them.
\<close>

theorem continuation_merge:
  "(page a = page b \<and> re_match h1_pattern (text a) \<and> \<not> re_match numbered_pattern (text b) \<longrightarrow>
      merge_loop (pre @ a # b # post)
        = merge_loop pre @ a\<lparr>text := strip (text a) @ [0x20] @ strip (text b)\<rparr> # merge_loop post)
   \<and> (page a = page b \<and> re_match stub_pattern_oe (text a)
        \<and> \<not> re_match numbered_pattern_oe (text b) \<longrightarrow>
      merge_loop_oe (pre @ a # b # post)
        = merge_loop_oe pre @ a\<lparr>text := replace_dash (text a) @ text b\<rparr> # merge_loop_oe post)"
  using merge_loop_append[of a pre "b # post"] merge_loop_oe_append[of a pre "b # post"]
    h1_pattern_numbered[of "text a"] stub_pattern_numbered_oe[of "text a"]
  by simp

theorem continuation_merge_witness:
  "page (heading_at ''3. Overview'' H1 5 100) = page (heading_at ''Syllabus'' H1 5 120)
   \<and> re_match h1_pattern (text (heading_at ''3. Overview'' H1 5 100))
   \<and> \<not> re_match numbered_pattern (text (heading_at ''Syllabus'' H1 5 120))
   \<and> merge_loop [heading_at ''3. Overview'' H1 5 100, heading_at ''Syllabus'' H1 5 120]
       = [(heading_at ''3. Overview'' H1 5 100)\<lparr>text := ustr ''3. Overview Syllabus''\<rparr>]
   \<and> re_match stub_pattern_oe (text (heading_at ''3. Overview'' H1 5 100))
   \<and> \<not> re_match numbered_pattern_oe (text (heading_at ''Syllabus'' H1 5 120))
   \<and> merge_loop_oe [heading_at ''3. Overview'' H1 5 100, heading_at ''Syllabus'' H1 5 120]
       = [(heading_at ''3. Overview'' H1 5 100)\<lparr>text := ustr ''3. OverviewSyllabus''\<rparr>]
   \<and> finalize_outline lower_ascii
         [heading_at ''3. Overview'' H1 5 100, heading_at ''Syllabus'' H1 5 120]
         \<lparr>baseline_font_size = 10, page_offset = 0\<rparr>
       = [\<lparr>entry_level = H1, entry_text = ustr ''3. Overview Syllabus '', entry_page = 6\<rparr>]"
proof -
  let ?a = "heading_at ''3. Overview'' H1 5 100"
  let ?b = "heading_at ''Syllabus'' H1 5 120"
  have pg: "page ?a = page ?b" by simp
  have m: "re_match h1_pattern (text ?a)" "re_match stub_pattern_oe (text ?a)" by code_simp+
  have n: "\<not> re_match numbered_pattern (text ?b)" "\<not> re_match numbered_pattern_oe (text ?b)"
    by code_simp+
  have t: "strip (text ?a) @ [0x20] @ strip (text ?b) = ustr ''3. Overview Syllabus''"
    "replace_dash (text ?a) @ text ?b = ustr ''3. OverviewSyllabus''" by code_simp+
  have "merge_loop ([] @ ?a # ?b # [])
      = merge_loop [] @ ?a\<lparr>text := strip (text ?a) @ [0x20] @ strip (text ?b)\<rparr> # merge_loop []"
    using continuation_merge[of ?a ?b "[]" "[]", THEN conjunct1] pg m(1) n(1) by blast
  then have pp: "merge_loop [?a, ?b] = [?a\<lparr>text := ustr ''3. Overview Syllabus''\<rparr>]"
    unfolding t by simp
  have "merge_loop_oe ([] @ ?a # ?b # [])
      = merge_loop_oe [] @ ?a\<lparr>text := replace_dash (text ?a) @ text ?b\<rparr> # merge_loop_oe []"
    using continuation_merge[of ?a ?b "[]" "[]", THEN conjunct2] pg m(2) n(2) by blast
  then have oe: "merge_loop_oe [?a, ?b] = [?a\<lparr>text := ustr ''3. OverviewSyllabus''\<rparr>]"
    unfolding t by simp
  have out: "finalize_outline lower_ascii [?a, ?b] \<lparr>baseline_font_size = 10, page_offset = 0\<rparr>
       = [\<lparr>entry_level = H1, entry_text = ustr ''3. Overview Syllabus '', entry_page = 6\<rparr>]"
    by code_simp
  show ?thesis
    by (intro conjI) (rule pg m n pp oe out)+
qed

text \<open>
  The claim as written fails in \<^verbatim>\<open>outline_extractor.py\<close>: "3. Overview" and "Syllabus"
  give "3. OverviewSyllabus", without a space.
\<close>

theorem merge_without_space_counterexample:
  "map entry_text (finalize_outline_oe lower_ascii
       [heading_at ''3. Overview'' H1 5 100, heading_at ''Syllabus'' H1 5 120]
       \<lparr>baseline_font_size = 12, page_offset = 0\<rparr>) = [ustr ''3. OverviewSyllabus '']"
  by code_simp

section \<open>The numbering depth law\<close>

lemma with_level_inject: "with_level l lv = with_level l' lv' \<longleftrightarrow> l = l' \<and> lv = lv'"
  by (cases l; cases l') (auto simp: with_level_def logical_line.defs heading.defs)

lemma classify_line_some: "classify_line prof l = Some h \<Longrightarrow> \<exists>lv. h = with_level l lv"
  by (auto simp: classify_line_def split: if_splits option.splits)

lemma set_map_filter:
  "set (List.map_filter f xs) = {y. \<exists>x\<in>set xs. f x = Some y}"
  by (induction xs) (auto split: option.splits)

lemma find_headings_mem:
  "with_level line lv \<in> set (find_headings lines prof) \<longleftrightarrow>
     line \<in> set lines \<and> classify_line prof line = Some (with_level line lv)"
proof
  assume "with_level line lv \<in> set (find_headings lines prof)"
  then obtain l where l: "l \<in> set lines" "classify_line prof l = Some (with_level line lv)"
    by (auto simp: find_headings_def set_map_filter)
  from classify_line_some[OF l(2)] have "l = line" by (auto simp: with_level_inject)
  with l show "line \<in> set lines \<and> classify_line prof line = Some (with_level line lv)" by simp
next
  assume "line \<in> set lines \<and> classify_line prof line = Some (with_level line lv)"
  then show "with_level line lv \<in> set (find_headings lines prof)"
    by (auto simp: find_headings_def set_map_filter)
qed

lemma find_headings_oe_mem:
  assumes "strip (text line) \<notin> set strong_H1s"
  shows "with_level line lv \<in> set (find_headings_oe lw lines prof) \<longleftrightarrow>
     line \<in> set lines \<and> is_strong_heading lw (baseline_font_size prof) line = Some lv"
  using assms
  by (auto simp: find_headings_oe_def set_map_filter with_level_inject split: if_splits)

lemma first_letters_not_decimal:
  "list_all (\<lambda>c. \<not> is_decimal c \<and> \<not> is_numeral c) [0x43, 0x53, 0x905, 0x92A, 0x7B2C, 0x52, 0x54, 0x41]"
  by code_simp

lemma strong_H1s_first: "k \<in> set strong_H1s \<Longrightarrow> k \<noteq> [] \<and> hd k \<in> {0x52, 0x54, 0x41}"
  by (auto simp: strong_H1s_def ustr_def)

lemma prefixes_first:
  "list_ex (\<lambda>pat. re_match pat t) common_section_prefixes \<Longrightarrow>
   t \<noteq> [] \<and> hd t \<in> {0x43, 0x53, 0x905, 0x92A, 0x7B2C}"
  by (auto simp: common_section_prefixes_def rlit_def ustr_def rchr_def re_match_assoc
      re_match_cls_seq_iff)

lemma numbered_not_keyword:
  assumes "decimal_run ea" "t = ea @ s"
  shows "t \<notin> set strong_H1s" "\<not> list_ex (\<lambda>pat. re_match pat t) common_section_prefixes"
proof -
  from assms have d: "t \<noteq> []" "is_decimal (hd t)" by (cases ea; auto simp: decimal_run_def)+
  show "t \<notin> set strong_H1s"
    using strong_H1s_first[of t] d(2) first_letters_not_decimal by auto
  show "\<not> list_ex (\<lambda>pat. re_match pat t) common_section_prefixes"
    using prefixes_first[of t] d(2) first_letters_not_decimal by auto
qed

lemma numeral_not_keyword:
  assumes "numeral_run da" "t = da @ s"
  shows "strip t \<notin> set special_h1s"
proof
  assume k: "strip t \<in> set special_h1s"
  from assms have d: "t \<noteq> []" "is_numeral (hd t)" by (cases da; auto simp: numeral_run_def)+
  from hd_stripped[OF d(1)] d(2) numeral_facts(1) have "is_numeral (hd (strip t))" by auto
  with k special_h1s_chars show False by (auto simp: list_all_iff)
qed

text \<open>
  Claim C1 (numbering depth law), as the code has it. In \<^verbatim>\<open>process_pdfs.py\<close> a line
  that rule 0 does not reject and that starts within 15 points of the left margin (the
  float difference \<^verbatim>\<open>bbox[0] - left_margin\<close>, rounded as Python rounds it) is classified
  H1 when its text is numerals, one separator and a whitespace character, then anything;
  H2 when it is numerals, a full stop, numerals and a whitespace character; H3 with three
  such segments; and a line whose text starts with four segments is no heading, wherever
  it stands. The headings that \<^verbatim>\<open>find_headings\<close> returns for a list of lines are those
  of its lines that are so classified, at that level.

  In \<^verbatim>\<open>outline_extractor.py\<close>, take a line whose trimmed text is a dotted decimal
  number of \<open>k\<close> segments, directly followed by whitespace and one more character of the
  line. The structure rule gives it level \<open>k\<close> for \<open>k \<le> 3\<close> and no level for
  \<open>k \<ge> 4\<close>. When the line passes the noise filters (at most 20 words, not of the form
  of a date, no page footer), \<^verbatim>\<open>is_strong_heading\<close> returns level \<open>k\<close> for \<open>k \<le> 3\<close>;
  for \<open>k \<ge> 4\<close> the line is a heading by the format rule only, H2 when it is large, bold
  and of at most 10 words. The headings that \<^verbatim>\<open>find_headings\<close> returns contain the
  line at exactly the level that \<^verbatim>\<open>is_strong_heading\<close> returns.
\<close>

theorem numbering_depth_law:
  fixes line :: logical_line and prof :: profile
  assumes "numeral_run da" "numeral_run db" "numeral_run dc"
    and "is_separator c" "is_space w" "is_numeral d"
    and "decimal_run ea" "list_all decimal_run ess" "r' \<noteq> []" "hd r' \<noteq> 0x0A"
  shows
    "(\<not> negative_filter (text line) \<and> \<bar>fsub (bbox0 line) (of_int (left_margin prof))\<bar> < 15 \<longrightarrow>
        (text line = da @ c # w # r \<longrightarrow> classify_line prof line = Some (with_level line H1))
      \<and> (text line = da @ 0x2E # db @ w # r \<longrightarrow>
            classify_line prof line = Some (with_level line H2))
      \<and> (text line = da @ 0x2E # db @ 0x2E # dc @ w # r \<longrightarrow>
            classify_line prof line = Some (with_level line H3)))
     \<and> (text line = da @ 0x2E # db @ 0x2E # dc @ 0x2E # d # r \<longrightarrow>
          classify_line prof line = None)
     \<and> (with_level line lv \<in> set (find_headings lines prof) \<longleftrightarrow>
          line \<in> set lines \<and> classify_line prof line = Some (with_level line lv))
     \<and> (strip (text line) = ea @ concat (map ((#) 0x2E) ess) @ w # r' \<longrightarrow>
          numbered_level (strip (text line)) =
            (if length ess + 1 \<le> 3 then Some (level_tag (length ess + 1)) else None)
          \<and> (with_level line lv \<in> set (find_headings_oe lw lines prof) \<longleftrightarrow>
               line \<in> set lines \<and> is_strong_heading lw (baseline_font_size prof) line = Some lv)
          \<and> (length (split_ws (strip (text line))) \<le> 20
               \<and> \<not> re_match date_pattern (strip (text line))
               \<and> \<not> re_match page_footer_pattern (lw (strip (text line))) \<longrightarrow>
             is_strong_heading lw (baseline_font_size prof) line =
               (if length ess + 1 \<le> 3 then Some (level_tag (length ess + 1))
                else if font_size line > fmul (baseline_font_size prof) (to_double (14 / 10))
                        \<and> is_bold line \<and> length (split_ws (strip (text line))) \<le> 10
                     then Some H2
                else None)))"
proof -
  note runs = assms(1-3)[unfolded numeral_run_def]
  have h1: "re_match pattern_H1 (da @ c # w # r)"
    using runs assms(4,5) by (simp add: form_H1)
  have h2: "re_match pattern_H2 (da @ 0x2E # db @ w # r)"
    "\<not> re_match pattern_H1 (da @ 0x2E # db @ w # r)"
    using runs assms(5) form_not_H1[of da db "w # r"] by (simp_all add: form_H2)
  have h3: "re_match pattern_H3 (da @ 0x2E # db @ 0x2E # dc @ w # r)"
    "\<not> re_match pattern_H2 (da @ 0x2E # db @ 0x2E # dc @ w # r)"
    "\<not> re_match pattern_H1 (da @ 0x2E # db @ 0x2E # dc @ w # r)"
    using runs assms(5) form_not_H1[of da db "0x2E # dc @ w # r"]
      form_not_H2[of da db "dc @ w # r"] by (simp_all add: form_H3)
  have h4: "\<not> re_match pattern_H1 (da @ 0x2E # db @ 0x2E # dc @ 0x2E # d # r)"
    "\<not> re_match pattern_H2 (da @ 0x2E # db @ 0x2E # dc @ 0x2E # d # r)"
    "\<not> re_match pattern_H3 (da @ 0x2E # db @ 0x2E # dc @ 0x2E # d # r)"
    using runs form_not_H1[of da db "0x2E # dc @ 0x2E # d # r"]
      form_not_H2[of da db "dc @ 0x2E # d # r"] form_not_H3[of da db dc "d # r"]
    by simp_all
  let ?ok = "\<not> negative_filter (text line) \<and> \<bar>fsub (bbox0 line) (of_int (left_margin prof))\<bar> < 15"
  have c1: "classify_line prof line = Some (with_level line H1)"
    if "?ok" "text line = da @ c # w # r"
    using that h1 by (simp add: classify_line_def match_structure_patterns)
  have c2: "classify_line prof line = Some (with_level line H2)"
    if "?ok" "text line = da @ 0x2E # db @ w # r"
    using that h2 by (simp add: classify_line_def match_structure_patterns)
  have c3: "classify_line prof line = Some (with_level line H3)"
    if "?ok" "text line = da @ 0x2E # db @ 0x2E # dc @ w # r"
    using that h3 by (simp add: classify_line_def match_structure_patterns)
  have c4: "classify_line prof line = None"
    if "text line = da @ 0x2E # db @ 0x2E # dc @ 0x2E # d # r"
    using that h4 numeral_not_keyword[OF assms(1) that]
    by (simp add: classify_line_def match_structure_patterns)
  note c5 = find_headings_mem[of line lv lines prof]
  let ?t = "strip (text line)"
  let ?g = "ea @ concat (map ((#) 0x2E) ess) @ w # r'"
  let ?k = "length ess + 1"
  have o1: "numbered_level ?t = (if ?k \<le> 3 then Some (level_tag ?k) else None)" if "?t = ?g"
    unfolding that using assms(7,8,5,9,10) by (rule numbered_level_segments)
  have o2: "with_level line lv \<in> set (find_headings_oe lw lines prof) \<longleftrightarrow>
               line \<in> set lines \<and> is_strong_heading lw (baseline_font_size prof) line = Some lv"
    if "?t = ?g"
    using numbered_not_keyword(1)[OF assms(7) that] by (rule find_headings_oe_mem)
  have o3: "is_strong_heading lw (baseline_font_size prof) line =
               (if ?k \<le> 3 then Some (level_tag ?k)
                else if font_size line > fmul (baseline_font_size prof) (to_double (14 / 10))
                        \<and> is_bold line \<and> length (split_ws ?t) \<le> 10
                     then Some H2
                else None)"
    if t: "?t = ?g" and f: "length (split_ws ?t) \<le> 20" "\<not> re_match date_pattern ?t"
      "\<not> re_match page_footer_pattern (lw ?t)"
  proof -
    from assms(7,9) have "3 \<le> length ?g" by (cases ea; cases r'; simp add: decimal_run_def)
    with t have len: "\<not> length ?t < 3" by simp
    note np = numbered_not_keyword(2)[OF assms(7) t]
    show ?thesis
      using len f np o1[OF t] by (simp add: is_strong_heading_def Let_def)
  qed
  from c1 c2 c3 c4 c5 o1 o2 o3 show ?thesis by blast
qed


theorem numbering_depth_law_witness:
  "with_level (line_at ''1. Scope'' 12 False 0 72 100) H1
     \<in> set (find_headings
         [line_at ''1. Scope'' 12 False 0 72 100, line_at ''2.1 Audience'' 12 False 0 72 120,
          line_at ''2.1.3 Terms'' 12 False 0 72 140, line_at ''2.1.3.4 Notes'' 12 False 0 72 160]
         \<lparr>baseline_font_size = 10, page_offset = 0, left_margin = 72\<rparr>)
   \<and> classify_line \<lparr>baseline_font_size = 10, page_offset = 0, left_margin = 72\<rparr>
        (line_at ''2.1 Audience'' 12 False 0 72 120)
      = Some (with_level (line_at ''2.1 Audience'' 12 False 0 72 120) H2)
   \<and> classify_line \<lparr>baseline_font_size = 10, page_offset = 0, left_margin = 72\<rparr>
        (line_at ''2.1.3 Terms'' 12 False 0 72 140)
      = Some (with_level (line_at ''2.1.3 Terms'' 12 False 0 72 140) H3)
   \<and> classify_line \<lparr>baseline_font_size = 10, page_offset = 0, left_margin = 72\<rparr>
        (line_at ''2.1.3.4 Notes'' 12 False 0 72 160) = None
   \<and> with_level (line_at ''2.1 Audience'' 12 False 0 72 120) H2
     \<in> set (find_headings_oe lower_ascii
         [line_at ''1 Scope'' 12 False 0 72 100, line_at ''2.1 Audience'' 12 False 0 72 120]
         \<lparr>baseline_font_size = 10, page_offset = 0, left_margin = 72\<rparr>)
   \<and> is_strong_heading lower_ascii 10 (line_at ''1 Scope'' 12 False 0 72 100) = Some H1
   \<and> is_strong_heading lower_ascii 10 (line_at ''2.1.3.4 Notes'' 12 False 0 72 160) = None
   \<and> is_strong_heading lower_ascii 10 (line_at ''2.1.3.4 Notes'' 16 True 0 72 160) = Some H2"
proof -
  let ?P = "\<lparr>baseline_font_size = 10, page_offset = 0, left_margin = 72\<rparr>"
  let ?L1 = "line_at ''1. Scope'' 12 False 0 72 100"
  let ?L2 = "line_at ''2.1 Audience'' 12 False 0 72 120"
  let ?L3 = "line_at ''2.1.3 Terms'' 12 False 0 72 140"
  let ?L4 = "line_at ''2.1.3.4 Notes'' 12 False 0 72 160"
  let ?L5 = "line_at ''2.1.3.4 Notes'' 16 True 0 72 160"
  let ?M1 = "line_at ''1 Scope'' 12 False 0 72 100"
  let ?lines = "[?L1, ?L2, ?L3, ?L4]"
  let ?lines_oe = "[?M1, ?L2]"
  have runs: "numeral_run [0x31]" "numeral_run [0x32]" "numeral_run [0x33]"
    "is_separator 0x2E" "is_space 0x20" "is_numeral 0x34"
    "decimal_run [0x31]" "decimal_run [0x32]"
    "list_all decimal_run []" "list_all decimal_run [[0x31]]"
    "list_all decimal_run [[0x31], [0x33], [0x34]]"
    by code_simp+
  have rs: "ustr ''Audience'' \<noteq> []" "hd (ustr ''Audience'') \<noteq> 0x0A"
    "ustr ''Notes'' \<noteq> []" "hd (ustr ''Notes'') \<noteq> 0x0A"
    "ustr ''Scope'' \<noteq> []" "hd (ustr ''Scope'') \<noteq> 0x0A"
    by (simp_all add: ustr_def)
  have nf: "\<not> negative_filter (ustr ''1. Scope'')" "\<not> negative_filter (ustr ''2.1 Audience'')"
    "\<not> negative_filter (ustr ''2.1.3 Terms'')"
    by code_simp+
  have near: "\<bar>fsub (bbox0 (line_at t 12 False 0 72 y)) (of_int (left_margin ?P))\<bar> < 15" for t y
    by (simp add: bbox0_def fsub_def to_double_def)
  have st: "strip (ustr ''1 Scope'') = [0x31] @ concat (map ((#) 0x2E) []) @ 0x20 # ustr ''Scope''"
    "strip (ustr ''2.1 Audience'')
       = [0x32] @ concat (map ((#) 0x2E) [[0x31]]) @ 0x20 # ustr ''Audience''"
    "strip (ustr ''2.1.3.4 Notes'')
       = [0x32] @ concat (map ((#) 0x2E) [[0x31], [0x33], [0x34]]) @ 0x20 # ustr ''Notes''"
    by code_simp+
  have noise: "length (split_ws (strip (ustr ''1 Scope''))) \<le> 20"
    "\<not> re_match date_pattern (strip (ustr ''1 Scope''))"
    "\<not> re_match page_footer_pattern (lower_ascii (strip (ustr ''1 Scope'')))"
    "length (split_ws (strip (ustr ''2.1 Audience''))) \<le> 20"
    "\<not> re_match date_pattern (strip (ustr ''2.1 Audience''))"
    "\<not> re_match page_footer_pattern (lower_ascii (strip (ustr ''2.1 Audience'')))"
    "length (split_ws (strip (ustr ''2.1.3.4 Notes''))) \<le> 20"
    "\<not> re_match date_pattern (strip (ustr ''2.1.3.4 Notes''))"
    "\<not> re_match page_footer_pattern (lower_ascii (strip (ustr ''2.1.3.4 Notes'')))"
    "length (split_ws (strip (ustr ''2.1.3.4 Notes''))) \<le> 10"
    by code_simp+
  have big: "(16 :: rat) > fmul 10 (to_double (14 / 10))" "\<not> (12 :: rat) > fmul 10 (to_double (14 / 10))"
    by code_simp+
  note A = numbering_depth_law[where line = ?L1 and prof = ?P and lines = ?lines and lv = H1
      and lw = lower_ascii and da = "[0x31]" and db = "[0x32]" and dc = "[0x33]" and c = "0x2E"
      and w = "0x20" and d = "0x34" and r = "ustr ''Scope''" and ea = "[0x32]"
      and ess = "[[0x31]]" and r' = "ustr ''Audience''", OF runs(1-6,8,10) rs(1,2)]
  have a1: "classify_line ?P ?L1 = Some (with_level ?L1 H1)"
    using A[THEN conjunct1] nf(1) near by (simp add: ustr_def)
  have a: "with_level ?L1 H1 \<in> set (find_headings ?lines ?P)"
    using A[THEN conjunct2, THEN conjunct2, THEN conjunct1] a1 by simp
  note B = numbering_depth_law[where line = ?L2 and prof = ?P and lines = ?lines_oe and lv = H2
      and lw = lower_ascii and da = "[0x32]" and db = "[0x31]" and dc = "[0x33]" and c = "0x2E"
      and w = "0x20" and d = "0x34" and r = "ustr ''Audience''" and ea = "[0x32]"
      and ess = "[[0x31]]" and r' = "ustr ''Audience''", OF runs(2,1,3-6,8,10) rs(1,2)]
  have b: "classify_line ?P ?L2 = Some (with_level ?L2 H2)"
    using B[THEN conjunct1] nf(2) near by (simp add: ustr_def)
  have "is_strong_heading lower_ascii (baseline_font_size ?P) ?L2 = Some H2"
    using B[THEN conjunct2, THEN conjunct2, THEN conjunct2] st(2) noise(4-6)
    by (simp add: level_tag_def)
  then have e: "with_level ?L2 H2 \<in> set (find_headings_oe lower_ascii ?lines_oe ?P)"
    using B[THEN conjunct2, THEN conjunct2, THEN conjunct2] st(2) by simp
  note C = numbering_depth_law[where line = ?L3 and prof = ?P and lines = ?lines and lv = H3
      and lw = lower_ascii and da = "[0x32]" and db = "[0x31]" and dc = "[0x33]" and c = "0x2E"
      and w = "0x20" and d = "0x34" and r = "ustr ''Terms''" and ea = "[0x32]"
      and ess = "[[0x31]]" and r' = "ustr ''Audience''", OF runs(2,1,3-6,8,10) rs(1,2)]
  have c: "classify_line ?P ?L3 = Some (with_level ?L3 H3)"
    using C[THEN conjunct1] nf(3) near by (simp add: ustr_def)
  note D = numbering_depth_law[where line = ?L4 and prof = ?P and lines = ?lines and lv = H3
      and lw = lower_ascii and da = "[0x32]" and db = "[0x31]" and dc = "[0x33]" and c = "0x2E"
      and w = "0x20" and d = "0x34" and r = "ustr '' Notes''" and ea = "[0x32]"
      and ess = "[[0x31], [0x33], [0x34]]" and r' = "ustr ''Notes''", OF runs(2,1,3-6,8,11) rs(3,4)]
  have d: "classify_line ?P ?L4 = None"
    using D[THEN conjunct2, THEN conjunct1] by (simp add: ustr_def)
  have g: "is_strong_heading lower_ascii 10 ?L4 = None"
    using D[THEN conjunct2, THEN conjunct2, THEN conjunct2] st(3) noise(7-10) big(2)
    by simp
  note E = numbering_depth_law[where line = ?L5 and prof = ?P and lines = ?lines and lv = H2
      and lw = lower_ascii and da = "[0x32]" and db = "[0x31]" and dc = "[0x33]" and c = "0x2E"
      and w = "0x20" and d = "0x34" and r = "ustr '' Notes''" and ea = "[0x32]"
      and ess = "[[0x31], [0x33], [0x34]]" and r' = "ustr ''Notes''", OF runs(2,1,3-6,8,11) rs(3,4)]
  have h: "is_strong_heading lower_ascii 10 ?L5 = Some H2"
    using E[THEN conjunct2, THEN conjunct2, THEN conjunct2] st(3) noise(7-10) big(1)
    by simp
  note F = numbering_depth_law[where line = ?M1 and prof = ?P and lines = ?lines_oe and lv = H1
      and lw = lower_ascii and da = "[0x32]" and db = "[0x31]" and dc = "[0x33]" and c = "0x2E"
      and w = "0x20" and d = "0x34" and r = "ustr ''Scope''" and ea = "[0x31]"
      and ess = "[]" and r' = "ustr ''Scope''", OF runs(2,1,3-6,7,9) rs(5,6)]
  have f: "is_strong_heading lower_ascii 10 ?M1 = Some H1"
    using F[THEN conjunct2, THEN conjunct2, THEN conjunct2] st(1) noise(1-3)
    by (simp add: level_tag_def)
  show ?thesis
    by (intro conjI) (rule a b c d e f g h)+
qed

text \<open>
  The claim as written fails in \<^verbatim>\<open>process_pdfs.py\<close>: in a document whose body text
  starts at x = 72, the line "1. Introduction" at x = 200 is more than 15 points from
  the left margin and is no heading.
\<close>

theorem numbering_depth_counterexample:
  "find_headings
      [line_at ''This document describes the scope of the work.'' 12 False 0 72 60,
       line_at ''1. Introduction'' 16 True 0 200 100]
      (build_profile
        [line_at ''This document describes the scope of the work.'' 12 False 0 72 60,
         line_at ''1. Introduction'' 16 True 0 200 100] 1) = []
   \<and> left_margin (build_profile
        [line_at ''This document describes the scope of the work.'' 12 False 0 72 60,
         line_at ''1. Introduction'' 16 True 0 200 100] 1) = 72
   \<and> re_match pattern_H1 (ustr ''1. Introduction'')"
  by code_simp

section \<open>Page normalization\<close>

lemma merge_loop_own:
  "m \<in> set (merge_loop hs) \<Longrightarrow>
   \<exists>h\<in>set hs. m = h\<lparr>text := text m\<rparr>
      \<and> (text m = text h
          \<or> (\<exists>n\<in>set hs. page n = page h \<and> text m = strip (text h) @ [0x20] @ strip (text n)))"
  by (induction hs rule: merge_loop.induct) (auto split: if_splits)

lemma merge_loop_oe_own:
  "m \<in> set (merge_loop_oe hs) \<Longrightarrow>
   \<exists>h\<in>set hs. m = h\<lparr>text := text m\<rparr>
      \<and> (text m = text h
          \<or> (\<exists>n\<in>set hs. page n = page h \<and> text m = replace_dash (text h) @ text n))"
  by (induction hs rule: merge_loop_oe.induct) (auto split: if_splits)

lemma merge_loop_covers: "h \<in> set hs \<Longrightarrow> \<exists>m\<in>set (merge_loop hs). page m = page h"
  by (induction hs rule: merge_loop.induct) (auto split: if_splits)

lemma merge_loop_oe_covers: "h \<in> set hs \<Longrightarrow> \<exists>m\<in>set (merge_loop_oe hs). page m = page h"
  by (induction hs rule: merge_loop_oe.induct) (auto split: if_splits)

lemma keep_first_by_covers: "x \<in> set xs \<Longrightarrow> \<exists>k\<in>set (keep_first_by f xs). f k = f x"
proof (induction f xs rule: keep_first_by.induct)
  case (1 f)
  then show ?case by simp
next
  case (2 f a xs)
  show ?case
  proof (cases "f x = f a")
    case True
    then show ?thesis by auto
  next
    case False
    with "2.prems" have "x \<in> set (filter (\<lambda>y. f y \<noteq> f a) xs)" by auto
    from "2.IH"[OF this] show ?thesis by auto
  qed
qed

lemma page_covered:
  assumes "\<And>h. h \<in> set hs \<Longrightarrow> \<exists>m\<in>set ms. page m = page h" "h \<in> set hs"
  shows "\<exists>e\<in>set (map (entry_of off) (keep_first_by (dedup_key lw off) ms)).
           entry_page e = page h + 1 - off"
proof -
  from assms obtain m where m: "m \<in> set ms" "page m = page h" by blast
  from keep_first_by_covers[OF m(1), of "dedup_key lw off"]
  obtain k where k: "k \<in> set (keep_first_by (dedup_key lw off) ms)"
    "dedup_key lw off k = dedup_key lw off m" by blast
  from k(2) m(2) have "entry_page (entry_of off k) = page h + 1 - off"
    by (simp add: dedup_key_def entry_of_def)
  with k(1) show ?thesis by auto
qed

text \<open>
  Claim C4 (page normalization). Both finalizers turn every heading \<open>m\<close> that the merge
  pass leaves and the deduplication keeps into one entry, in order, with the level of
  \<open>m\<close>, its cleaned text and the page \<open>page m + 1 - page_offset\<close>. A heading that the
  merge pass leaves is a heading \<open>h\<close> of the input with nothing but its text changed
  (the text of \<open>h\<close>, alone or followed by the text of a heading of the same page), so
  the entry reports the page of its own heading. Every heading of the input, also one
  that was absorbed or dropped as a duplicate, finds its page
  \<open>page h + 1 - page_offset\<close> on an entry of the outline. With \<open>page_offset = 1\<close> a heading
  of raw page index 1 is reported on page 1, and with \<open>page_offset = 0\<close> a heading of raw
  page index 0 is reported on page 1.
\<close>

theorem page_normalization:
  "finalize_outline lw hs prof =
     map (\<lambda>m. \<lparr>entry_level = level m, entry_text = strip (sub_ws (text m)) @ [0x20],
                entry_page = page m + 1 - page_offset prof\<rparr>)
       (keep_first_by (dedup_key lw (page_offset prof))
          (merge_loop (sort_key (\<lambda>h. (page h, bbox1 h)) hs)))
   \<and> finalize_outline_oe lw hs prof =
     map (\<lambda>m. \<lparr>entry_level = level m, entry_text = strip (sub_ws (text m)) @ [0x20],
                entry_page = page m + 1 - page_offset prof\<rparr>)
       (keep_first_by (dedup_key lw (page_offset prof))
          (merge_loop_oe (sort_key (\<lambda>h. (page h, bbox1 h)) hs)))
   \<and> (\<forall>m\<in>set (merge_loop (sort_key (\<lambda>h. (page h, bbox1 h)) hs)).
         \<exists>h\<in>set hs. m = h\<lparr>text := text m\<rparr>
           \<and> (text m = text h
               \<or> (\<exists>n\<in>set hs. page n = page h
                     \<and> text m = strip (text h) @ [0x20] @ strip (text n))))
   \<and> (\<forall>m\<in>set (merge_loop_oe (sort_key (\<lambda>h. (page h, bbox1 h)) hs)).
         \<exists>h\<in>set hs. m = h\<lparr>text := text m\<rparr>
           \<and> (text m = text h
               \<or> (\<exists>n\<in>set hs. page n = page h \<and> text m = replace_dash (text h) @ text n)))
   \<and> (\<forall>h\<in>set hs. \<exists>e\<in>set (finalize_outline lw hs prof).
         entry_page e = page h + 1 - page_offset prof)
   \<and> (\<forall>h\<in>set hs. \<exists>e\<in>set (finalize_outline_oe lw hs prof).
         entry_page e = page h + 1 - page_offset prof)
   \<and> (page_offset prof = 1 \<and> page h = 1 \<longrightarrow>
         map entry_page (finalize_outline lw [h] prof) = [1]
         \<and> map entry_page (finalize_outline_oe lw [h] prof) = [1])
   \<and> (page_offset prof = 0 \<and> page h = 0 \<longrightarrow>
         map entry_page (finalize_outline lw [h] prof) = [1]
         \<and> map entry_page (finalize_outline_oe lw [h] prof) = [1])"
proof -
  let ?s = "sort_key (\<lambda>h. (page h, bbox1 h)) hs"
  have eq: "entry_of (page_offset prof) =
      (\<lambda>m. \<lparr>entry_level = level m, entry_text = strip (sub_ws (text m)) @ [0x20],
                entry_page = page m + 1 - page_offset prof\<rparr>)"
    by (rule ext) (simp add: entry_of_def)
  have a: "finalize_outline lw hs prof =
     map (\<lambda>m. \<lparr>entry_level = level m, entry_text = strip (sub_ws (text m)) @ [0x20],
                entry_page = page m + 1 - page_offset prof\<rparr>)
       (keep_first_by (dedup_key lw (page_offset prof)) (merge_loop ?s))"
    unfolding finalize_outline_keep_first eq ..
  have b: "finalize_outline_oe lw hs prof =
     map (\<lambda>m. \<lparr>entry_level = level m, entry_text = strip (sub_ws (text m)) @ [0x20],
                entry_page = page m + 1 - page_offset prof\<rparr>)
       (keep_first_by (dedup_key lw (page_offset prof)) (merge_loop_oe ?s))"
    unfolding finalize_outline_oe_keep_first eq ..
  have c: "\<forall>m\<in>set (merge_loop ?s).
         \<exists>h\<in>set hs. m = h\<lparr>text := text m\<rparr>
           \<and> (text m = text h
               \<or> (\<exists>n\<in>set hs. page n = page h
                     \<and> text m = strip (text h) @ [0x20] @ strip (text n)))"
    using merge_loop_own[of _ ?s] by simp
  have d: "\<forall>m\<in>set (merge_loop_oe ?s).
         \<exists>h\<in>set hs. m = h\<lparr>text := text m\<rparr>
           \<and> (text m = text h
               \<or> (\<exists>n\<in>set hs. page n = page h \<and> text m = replace_dash (text h) @ text n))"
    using merge_loop_oe_own[of _ ?s] by simp
  have e: "\<forall>h\<in>set hs. \<exists>e\<in>set (finalize_outline lw hs prof).
         entry_page e = page h + 1 - page_offset prof"
    unfolding finalize_outline_keep_first
    using page_covered[of hs "merge_loop ?s" _ "page_offset prof" lw] merge_loop_covers[of _ ?s]
    by simp
  have f: "\<forall>h\<in>set hs. \<exists>e\<in>set (finalize_outline_oe lw hs prof).
         entry_page e = page h + 1 - page_offset prof"
    unfolding finalize_outline_oe_keep_first
    using page_covered[of hs "merge_loop_oe ?s" _ "page_offset prof" lw]
      merge_loop_oe_covers[of _ ?s]
    by simp
  have g: "page_offset prof = 1 \<and> page h = 1 \<longrightarrow>
         map entry_page (finalize_outline lw [h] prof) = [1]
         \<and> map entry_page (finalize_outline_oe lw [h] prof) = [1]"
    by (simp add: finalize_outline_single finalize_outline_oe_single)
  have h: "page_offset prof = 0 \<and> page h = 0 \<longrightarrow>
         map entry_page (finalize_outline lw [h] prof) = [1]
         \<and> map entry_page (finalize_outline_oe lw [h] prof) = [1]"
    by (simp add: finalize_outline_single finalize_outline_oe_single)
  show ?thesis
    by (rule conjI[OF a conjI[OF b conjI[OF c conjI[OF d conjI[OF e conjI[OF f conjI[OF g h]]]]]]])
qed


theorem page_normalization_witness:
  "finalize_outline lower_ascii
      [heading_at ''2. Terms'' H1 2 100, heading_at ''1. Scope'' H1 1 100]
      \<lparr>baseline_font_size = 10, page_offset = 1\<rparr>
     = [\<lparr>entry_level = H1, entry_text = ustr ''1. Scope '', entry_page = 1\<rparr>,
        \<lparr>entry_level = H1, entry_text = ustr ''2. Terms '', entry_page = 2\<rparr>]
   \<and> heading_at ''2. Terms'' H1 2 100
       \<in> set [heading_at ''2. Terms'' H1 2 100, heading_at ''1. Scope'' H1 1 100]
   \<and> (\<exists>e\<in>set (finalize_outline_oe lower_ascii
            [heading_at ''2. Terms'' H1 2 100, heading_at ''1. Scope'' H1 1 100]
            \<lparr>baseline_font_size = 10, page_offset = 1\<rparr>). entry_page e = 2)
   \<and> heading_at ''1. Scope'' H1 1 100
       \<in> set (merge_loop (sort_key (\<lambda>h. (page h, bbox1 h))
            [heading_at ''2. Terms'' H1 2 100, heading_at ''1. Scope'' H1 1 100]))
   \<and> (\<exists>h\<in>set [heading_at ''2. Terms'' H1 2 100, heading_at ''1. Scope'' H1 1 100].
         page (heading_at ''1. Scope'' H1 1 100) = page h
         \<and> level (heading_at ''1. Scope'' H1 1 100) = level h)
   \<and> map entry_page (finalize_outline lower_ascii [heading_at ''1. Scope'' H1 1 100]
        \<lparr>baseline_font_size = 10, page_offset = 1\<rparr>) = [1]
   \<and> map entry_page (finalize_outline_oe lower_ascii [heading_at ''1 Scope'' H1 0 100]
        \<lparr>baseline_font_size = 12, page_offset = 0\<rparr>) = [1]"
proof -
  let ?a = "heading_at ''2. Terms'' H1 2 100"
  let ?b = "heading_at ''1. Scope'' H1 1 100"
  let ?c = "heading_at ''1 Scope'' H1 0 100"
  let ?hs = "[?a, ?b]"
  let ?P = "\<lparr>baseline_font_size = 10, page_offset = 1\<rparr>"
  let ?Q = "\<lparr>baseline_font_size = 12, page_offset = 0\<rparr>"
  have rhs: "map (\<lambda>m. \<lparr>entry_level = level m, entry_text = strip (sub_ws (text m)) @ [0x20],
                entry_page = page m + 1 - page_offset ?P\<rparr>)
       (keep_first_by (dedup_key lower_ascii (page_offset ?P))
          (merge_loop (sort_key (\<lambda>h. (page h, bbox1 h)) ?hs)))
     = [\<lparr>entry_level = H1, entry_text = ustr ''1. Scope '', entry_page = 1\<rparr>,
        \<lparr>entry_level = H1, entry_text = ustr ''2. Terms '', entry_page = 2\<rparr>]"
    by code_simp
  have out: "finalize_outline lower_ascii ?hs ?P
     = [\<lparr>entry_level = H1, entry_text = ustr ''1. Scope '', entry_page = 1\<rparr>,
        \<lparr>entry_level = H1, entry_text = ustr ''2. Terms '', entry_page = 2\<rparr>]"
    by (rule trans[OF page_normalization[of lower_ascii ?hs ?P ?b, THEN conjunct1] rhs])
  have mem: "?a \<in> set ?hs" by simp
  from page_normalization[of lower_ascii ?hs ?P ?b, THEN conjunct2, THEN conjunct2,
      THEN conjunct2, THEN conjunct2, THEN conjunct2, THEN conjunct1, THEN bspec, OF mem]
  have cov: "\<exists>e\<in>set (finalize_outline_oe lower_ascii ?hs ?P). entry_page e = 2"
    by simp
  have kept: "?b \<in> set (merge_loop (sort_key (\<lambda>h. (page h, bbox1 h)) ?hs))" by code_simp
  from page_normalization[of lower_ascii ?hs ?P ?b, THEN conjunct2, THEN conjunct2,
      THEN conjunct1, THEN bspec, OF kept]
  obtain h where h: "h \<in> set ?hs" "?b = h\<lparr>text := text ?b\<rparr>" by blast
  from h(2) have "page ?b = page (h\<lparr>text := text ?b\<rparr>)" "level ?b = level (h\<lparr>text := text ?b\<rparr>)"
    by simp_all
  then have "page ?b = page h \<and> level ?b = level h" by simp
  with h(1) have own: "\<exists>h\<in>set ?hs. page ?b = page h \<and> level ?b = level h" by blast
  have one: "map entry_page (finalize_outline lower_ascii [?b] ?P) = [1]"
    using page_normalization[of lower_ascii ?hs ?P ?b, THEN conjunct2, THEN conjunct2,
      THEN conjunct2, THEN conjunct2, THEN conjunct2, THEN conjunct2, THEN conjunct1]
    by simp
  have zero: "map entry_page (finalize_outline_oe lower_ascii [?c] ?Q) = [1]"
    using page_normalization[of lower_ascii ?hs ?Q ?c, THEN conjunct2, THEN conjunct2,
      THEN conjunct2, THEN conjunct2, THEN conjunct2, THEN conjunct2, THEN conjunct2]
    by simp
  show ?thesis
    by (rule conjI[OF out conjI[OF mem conjI[OF cov conjI[OF kept conjI[OF own conjI[OF one zero]]]]]])
qed

section \<open>The merge does not chain\<close>



























end
